theory Spec2Isabelle
  imports
    Complex_Main
    "HOL-Library.Char_ord"
    "HOL-Library.List_Lexorder"
    "HOL-Library.Product_Lexorder"
begin

section \<open>The persisted state: the \<open>events\<close> and \<open>tags\<close> tables\<close>

text \<open>
  \<open>database.py\<close> keeps two SQLite tables. A table is modelled as the list of its rows
  in rowid order together with the counter that \<open>AUTOINCREMENT\<close> keeps in
  \<open>sqlite_sequence\<close>. A nullable column is an \<open>option\<close> (\<open>None\<close> is SQL \<open>NULL\<close>).
  \<open>CURRENT_TIMESTAMP\<close> is the clock of the store; every inserting operation takes its
  reading as the argument \<open>now\<close>.
\<close>

record event =
  event_id :: int
  start_datetime :: string
  end_datetime :: string
  title :: string
  description :: "string option"
  tag :: "string option"
  created_at :: "string option"

record tag_row =
  tag_id :: int
  name :: string
  color :: string
  order_index :: int
  tag_created_at :: "string option"

record db =
  events :: "event list"
  events_seq :: int
  tags :: "tag_row list"
  tags_seq :: int

text \<open>
  The exceptions the module lets escape. \<open>update_tag\<close> raises
  \<open>ValueError("Tag with id ... not found")\<close> (\<open>NotFound\<close>); \<open>add_tag\<close> and \<open>update_tag\<close>
  turn \<open>sqlite3.IntegrityError\<close> into \<open>ValueError("Tag '...' already exists")\<close>
  (\<open>DuplicateTag\<close>); \<open>IntegrityError\<close> is the store's own constraint failure where the
  code does not catch it; \<open>StrptimeError\<close> is the \<open>ValueError\<close> of
  \<open>datetime.strptime\<close>; \<open>OverflowError\<close> is the one of date arithmetic past year 9999;
  \<open>KeyError\<close> is the one of a dictionary lookup.
\<close>

datatype error =
  NotFound int
  | DuplicateTag string
  | IntegrityError
  | StrptimeError
  | OverflowError
  | KeyError

text \<open>
  The rowid an \<open>INTEGER PRIMARY KEY AUTOINCREMENT\<close> column gets when the insert gives
  none: one more than the largest rowid the table holds or ever held.
\<close>

definition next_rowid :: "int list \<Rightarrow> int \<Rightarrow> int" where
  "next_rowid ids seq = max seq (fold max ids 0) + 1"

section \<open>Tag store\<close>

text \<open>\<open>SELECT MAX(order_index) FROM tags\<close>: \<open>NULL\<close> on an empty table.\<close>

primrec sql_max :: "int list \<Rightarrow> int option" where
  "sql_max [] = None"
| "sql_max (x # xs) = (case sql_max xs of None \<Rightarrow> Some x | Some m \<Rightarrow> Some (max x m))"

text \<open>Python's \<open>max_order or 0\<close>: the right operand when the left one is \<open>None\<close> or \<open>0\<close>.\<close>

definition or_zero :: "int option \<Rightarrow> int" where
  "or_zero v = (case v of None \<Rightarrow> 0 | Some m \<Rightarrow> if m = 0 then 0 else m)"

text \<open>\<open>get_all_tags\<close>: \<open>SELECT * FROM tags ORDER BY order_index\<close>.\<close>

definition get_all_tags :: "db \<Rightarrow> tag_row list" where
  "get_all_tags d = sort_key order_index (tags d)"

text \<open>
  \<open>add_tag(name, color, order_index=None)\<close>. The insert violates \<open>UNIQUE(name)\<close> exactly
  when some row has the name; the connection is then closed without a commit.
\<close>

definition add_tag ::
  "db \<Rightarrow> string \<Rightarrow> string \<Rightarrow> string \<Rightarrow> int option \<Rightarrow> (error + int) \<times> db" where
  "add_tag d now nm col order_index_arg =
     (let oi = (case order_index_arg of
                  None \<Rightarrow> or_zero (sql_max (map order_index (tags d))) + 1
                | Some i \<Rightarrow> i)
      in if nm \<in> set (map name (tags d)) then (Inl (DuplicateTag nm), d)
         else
           let new_id = next_rowid (map tag_id (tags d)) (tags_seq d);
               row = \<lparr>tag_id = new_id, name = nm, color = col, order_index = oi,
                      tag_created_at = Some now\<rparr>
           in (Inr new_id, d\<lparr>tags := tags d @ [row], tags_seq := new_id\<rparr>))"

text \<open>
  \<open>update_tag(tag_id, name, color)\<close>. \<open>UPDATE tags SET name = ?, color = ? WHERE id = ?\<close>
  violates \<open>UNIQUE(name)\<close> exactly when another row has the new name; then nothing was
  written and the connection is closed without a commit. Otherwise the events are
  renamed when the name changed, and both updates are committed together.
\<close>

definition rename_event_tag :: "string \<Rightarrow> string \<Rightarrow> event \<Rightarrow> event" where
  "rename_event_tag old_name nm e = (if tag e = Some old_name then e\<lparr>tag := Some nm\<rparr> else e)"

definition update_tag :: "db \<Rightarrow> int \<Rightarrow> string \<Rightarrow> string \<Rightarrow> (error + unit) \<times> db" where
  "update_tag d tid nm col =
     (case find (\<lambda>t. tag_id t = tid) (tags d) of
        None \<Rightarrow> (Inl (NotFound tid), d)
      | Some t \<Rightarrow>
          let old_name = name t in
          if list_ex (\<lambda>u. tag_id u \<noteq> tid \<and> name u = nm) (tags d)
          then (Inl (DuplicateTag nm), d)
          else
            let tags' = map (\<lambda>u. if tag_id u = tid then u\<lparr>name := nm, color := col\<rparr> else u)
                          (tags d);
                events' = (if old_name \<noteq> nm
                           then map (rename_event_tag old_name nm) (events d)
                           else events d)
            in (Inr (), d\<lparr>events := events', tags := tags'\<rparr>))"

text \<open>
  \<open>delete_tag(tag_id)\<close> returns a dictionary: \<open>{'success': False, 'error': 'Tag not found'}\<close>
  or \<open>{'success': True, 'event_count': n}\<close>.
\<close>

record delete_result =
  success :: bool
  event_count :: "int option"
  error_msg :: "string option"

definition detach_event_tag :: "string \<Rightarrow> event \<Rightarrow> event" where
  "detach_event_tag tag_name e = (if tag e = Some tag_name then e\<lparr>tag := None\<rparr> else e)"

definition delete_tag :: "db \<Rightarrow> int \<Rightarrow> delete_result \<times> db" where
  "delete_tag d tid =
     (case find (\<lambda>t. tag_id t = tid) (tags d) of
        None \<Rightarrow> (\<lparr>success = False, event_count = None, error_msg = Some ''Tag not found''\<rparr>, d)
      | Some t \<Rightarrow>
          let tag_name = name t;
              n = int (length (filter (\<lambda>e. tag e = Some tag_name) (events d)));
              events' = (if n > 0 then map (detach_event_tag tag_name) (events d) else events d);
              tags' = filter (\<lambda>u. tag_id u \<noteq> tid) (tags d)
          in (\<lparr>success = True, event_count = Some n, error_msg = None\<rparr>,
              d\<lparr>events := events', tags := tags'\<rparr>))"

text \<open>\<open>reorder_tags(tag_ids)\<close>: position \<open>i\<close> (from 0) gives its id \<open>order_index = i + 1\<close>.\<close>

fun reorder_from :: "int \<Rightarrow> int list \<Rightarrow> tag_row list \<Rightarrow> tag_row list" where
  "reorder_from i [] ts = ts"
| "reorder_from i (tid # tids) ts =
     reorder_from (i + 1) tids
       (map (\<lambda>u. if tag_id u = tid then u\<lparr>order_index := i + 1\<rparr> else u) ts)"

definition reorder_tags :: "db \<Rightarrow> int list \<Rightarrow> db" where
  "reorder_tags d tag_ids = d\<lparr>tags := reorder_from 0 tag_ids (tags d)\<rparr>"

section \<open>Python values\<close>

text \<open>
  The values the callers pass where the code tests truthiness or lets \<open>None\<close> through:
  \<open>None\<close> or a string. A dictionary is a finite map from keys to such values.
\<close>

datatype pyval = PyNone | PyStr string

type_synonym pydict = "string \<rightharpoonup> pyval"

text \<open>The truth value of \<open>if v:\<close>: \<open>None\<close> and the empty string are false.\<close>

fun truthy :: "pyval \<Rightarrow> bool" where
  "truthy PyNone = False"
| "truthy (PyStr s) = (s \<noteq> [])"

text \<open>\<open>d.get(k, default)\<close>.\<close>

definition dict_get :: "pydict \<Rightarrow> string \<Rightarrow> pyval \<Rightarrow> pyval" where
  "dict_get dict k dflt = (case dict k of None \<Rightarrow> dflt | Some v \<Rightarrow> v)"

text \<open>The value as an f-string prints it (\<open>f"{date}"\<close>), and as SQLite stores it.\<close>

fun py_str :: "pyval \<Rightarrow> string" where
  "py_str PyNone = ''None''"
| "py_str (PyStr s) = s"

fun sql_text :: "pyval \<Rightarrow> string option" where
  "sql_text PyNone = None"
| "sql_text (PyStr s) = Some s"

text \<open>A parameter with a default value: left out by the caller, or passed.\<close>

datatype 'a arg = Omitted | Passed 'a

fun arg_or :: "'a arg \<Rightarrow> 'a \<Rightarrow> 'a" where
  "arg_or Omitted dflt = dflt"
| "arg_or (Passed v) dflt = v"

section \<open>Python floats\<close>

text \<open>
  A \<open>float\<close> of Python is a binary64 number of IEEE 754. The model keeps a finite one
  as the rational number it denotes. An operation on floats returns the exact result
  rounded to the nearest number with 53 significant bits, and to the one with an even
  last bit when two are equally near; so does the true division of two integers.
  \<open>round_pos\<close> scales a positive number by powers of two, which changes no bit, until
  its integer part has 53 bits, rounds it to an integer and scales it back.

  The exponent is not bounded, so no infinity and no subnormal number is modelled:
  the hours one event adds to a day are below 24 and, where they are not zero, above
  \<open>10 ^ -10\<close>, a sum of them reaches \<open>2 ^ 1024\<close> only over more than \<open>2 ^ 1000\<close>
  events, and a sum of floats that falls below the normal range is exact.
\<close>

definition round_half_even :: "rat \<Rightarrow> int" where
  "round_half_even x =
     (let f = \<lfloor>x\<rfloor>; d = x - of_int f
      in if d < 1 / 2 then f else if 1 / 2 < d then f + 1 else if even f then f else f + 1)"

function round_pos :: "rat \<Rightarrow> rat" where
  "round_pos x =
     (if x \<le> 0 then 0
      else if x < 2 ^ 52 then round_pos (2 * x) / 2
      else if 2 ^ 53 \<le> x then 2 * round_pos (x / 2)
      else of_int (round_half_even x))"
  by pat_completeness auto
termination
proof (relation "measure (\<lambda>x. if x < 2 ^ 52 then nat \<lfloor>2 ^ 53 / x\<rfloor> else nat \<lfloor>x / 2 ^ 52\<rfloor>)")
  show "wf (measure (\<lambda>x :: rat. if x < 2 ^ 52 then nat \<lfloor>2 ^ 53 / x\<rfloor> else nat \<lfloor>x / 2 ^ 52\<rfloor>))"
    by simp
next
  fix x :: rat
  assume p: "\<not> x \<le> 0" and s: "x < 2 ^ 52"
  have half: "\<lfloor>y / 2\<rfloor> < \<lfloor>y\<rfloor>" if "2 \<le> y" for y :: rat
  proof -
    have "y < of_int \<lfloor>y\<rfloor> + 1" by linarith
    with that have "y / 2 < of_int \<lfloor>y\<rfloor>" by linarith
    then show ?thesis by (simp add: floor_less_iff)
  qed
  have big: "2 < 2 ^ 53 / x" using p s by (simp add: pos_less_divide_eq)
  show "(2 * x, x) \<in> measure (\<lambda>x. if x < 2 ^ 52 then nat \<lfloor>2 ^ 53 / x\<rfloor> else nat \<lfloor>x / 2 ^ 52\<rfloor>)"
  proof (cases "2 * x < 2 ^ 52")
    case True
    have "\<lfloor>2 ^ 53 / x / 2\<rfloor> < \<lfloor>2 ^ 53 / x\<rfloor>" using big by (intro half) simp
    moreover have "0 < \<lfloor>2 ^ 53 / x\<rfloor>" using big by linarith
    ultimately show ?thesis using True s by simp
  next
    case False
    have "2 * x / 2 ^ 52 < 2" using s by simp
    then have a: "\<lfloor>2 * x / 2 ^ 52\<rfloor> < 2" by linarith
    have b: "2 \<le> \<lfloor>2 ^ 53 / x\<rfloor>" using big by linarith
    from a b have "nat \<lfloor>2 * x / 2 ^ 52\<rfloor> < nat \<lfloor>2 ^ 53 / x\<rfloor>" by linarith
    then show ?thesis by (simp only: in_measure False s if_True if_False)
  qed
next
  fix x :: rat
  assume p: "\<not> x \<le> 0" and s: "\<not> x < 2 ^ 52" and l: "2 ^ 53 \<le> x"
  have half: "\<lfloor>y / 2\<rfloor> < \<lfloor>y\<rfloor>" if "2 \<le> y" for y :: rat
  proof -
    have "y < of_int \<lfloor>y\<rfloor> + 1" by linarith
    with that have "y / 2 < of_int \<lfloor>y\<rfloor>" by linarith
    then show ?thesis by (simp add: floor_less_iff)
  qed
  have big: "2 \<le> x / 2 ^ 52" using l by simp
  then have "\<lfloor>x / 2 ^ 52 / 2\<rfloor> < \<lfloor>x / 2 ^ 52\<rfloor>" by (rule half)
  moreover have "0 < \<lfloor>x / 2 ^ 52\<rfloor>" using big by linarith
  moreover have "\<not> x / 2 < 2 ^ 52" using l by simp
  ultimately show "(x / 2, x) \<in> measure (\<lambda>x. if x < 2 ^ 52 then nat \<lfloor>2 ^ 53 / x\<rfloor> else nat \<lfloor>x / 2 ^ 52\<rfloor>)"
    using s by simp
qed

declare round_pos.simps [simp del]

text \<open>The float nearest to a rational number.\<close>

definition binary64 :: "rat \<Rightarrow> rat" where
  "binary64 x = (if x < 0 then - round_pos (- x) else round_pos x)"

section \<open>Event store\<close>

text \<open>
  \<open>INSERT INTO events (start_datetime, end_datetime, title, description, tag)\<close>: the id is
  assigned by \<open>AUTOINCREMENT\<close>, \<open>created_at\<close> by its default; the three \<open>NOT NULL\<close>
  columns refuse \<open>None\<close> with \<open>IntegrityError\<close>. The result is the new rowid
  (\<open>cursor.lastrowid\<close>) and the state.
\<close>

definition insert_event ::
  "db \<Rightarrow> string \<Rightarrow> pyval \<Rightarrow> pyval \<Rightarrow> pyval \<Rightarrow> pyval \<Rightarrow> pyval \<Rightarrow> error + (int \<times> db)" where
  "insert_event d now start_v end_v title_v description_v tag_v =
     (case (sql_text start_v, sql_text end_v, sql_text title_v) of
        (Some s, Some e, Some t) \<Rightarrow>
          let new_id = next_rowid (map event_id (events d)) (events_seq d);
              row = \<lparr>event_id = new_id, start_datetime = s, end_datetime = e, title = t,
                     description = sql_text description_v, tag = sql_text tag_v,
                     created_at = Some now\<rparr>
          in Inr (new_id, d\<lparr>events := events d @ [row], events_seq := new_id\<rparr>)
      | _ \<Rightarrow> Inl IntegrityError)"

text \<open>\<open>add_event(start_datetime, end_datetime, title, description='', tag='')\<close>.\<close>

definition add_event ::
  "db \<Rightarrow> string \<Rightarrow> pyval \<Rightarrow> pyval \<Rightarrow> pyval \<Rightarrow> pyval arg \<Rightarrow> pyval arg \<Rightarrow> (error + int) \<times> db" where
  "add_event d now start_v end_v title_v description_arg tag_arg =
     (case insert_event d now start_v end_v title_v
             (arg_or description_arg (PyStr [])) (arg_or tag_arg (PyStr [])) of
        Inl err \<Rightarrow> (Inl err, d)
      | Inr (new_id, d') \<Rightarrow> (Inr new_id, d'))"

text \<open>
  \<open>update_event(event_id, start_datetime, end_datetime, title, description='', tag='')\<close>:
  one \<open>UPDATE ... WHERE id = ?\<close>, which fails as a whole on a \<open>NOT NULL\<close> violation
  (only when a row has the id: a statement that matches no row checks nothing).
\<close>

definition update_event ::
  "db \<Rightarrow> int \<Rightarrow> pyval \<Rightarrow> pyval \<Rightarrow> pyval \<Rightarrow> pyval arg \<Rightarrow> pyval arg \<Rightarrow> (error + unit) \<times> db" where
  "update_event d eid start_v end_v title_v description_arg tag_arg =
     (if \<not> list_ex (\<lambda>e. event_id e = eid) (events d) then (Inr (), d)
      else
        case (sql_text start_v, sql_text end_v, sql_text title_v) of
          (Some s, Some e, Some t) \<Rightarrow>
            (Inr (),
             d\<lparr>events :=
                 map (\<lambda>r. if event_id r = eid
                           then r\<lparr>start_datetime := s, end_datetime := e, title := t,
                                  description := sql_text (arg_or description_arg (PyStr [])),
                                  tag := sql_text (arg_or tag_arg (PyStr []))\<rparr>
                           else r)
                   (events d)\<rparr>)
        | _ \<Rightarrow> (Inl IntegrityError, d))"

definition delete_event :: "db \<Rightarrow> int \<Rightarrow> db" where
  "delete_event d eid = d\<lparr>events := filter (\<lambda>e. event_id e \<noteq> eid) (events d)\<rparr>"

definition get_events_by_tag :: "db \<Rightarrow> string \<Rightarrow> event list" where
  "get_events_by_tag d tag_name = filter (\<lambda>e. tag e = Some tag_name) (events d)"

section \<open>Bulk importer\<close>

text \<open>
  The loop of \<open>bulk_add_events\<close> over the input records, with the state of the open
  transaction and \<open>imported_count\<close>. An exception of an insert ends it.
\<close>

fun bulk_loop :: "db \<Rightarrow> string \<Rightarrow> pyval \<Rightarrow> pydict list \<Rightarrow> int \<Rightarrow> error + (int \<times> db)" where
  "bulk_loop d now tag_v [] imported_count = Inr (imported_count, d)"
| "bulk_loop d now tag_v (ev # evs) imported_count =
     (let title_v = dict_get ev ''title'' (PyStr ''(no title)'');
          description_v = dict_get ev ''description'' (PyStr []);
          start_v = dict_get ev ''start_datetime'' PyNone;
          end_v = dict_get ev ''end_datetime'' PyNone
      in if truthy start_v \<and> truthy end_v then
           (case insert_event d now start_v end_v title_v description_v tag_v of
              Inl err \<Rightarrow> Inl err
            | Inr (new_id, d') \<Rightarrow> bulk_loop d' now tag_v evs (imported_count + 1))
         else bulk_loop d now tag_v evs imported_count)"

text \<open>
  \<open>bulk_add_events(events, tag='')\<close>: nothing to do on an empty list; otherwise the loop,
  committed when it ends and rolled back (the state before the call) when it raises.
\<close>

definition bulk_add_events ::
  "db \<Rightarrow> string \<Rightarrow> pydict list \<Rightarrow> pyval arg \<Rightarrow> (error + int) \<times> db" where
  "bulk_add_events d now evs tag_arg =
     (if evs = [] then (Inr 0, d)
      else
        case bulk_loop d now (arg_or tag_arg (PyStr [])) evs 0 of
          Inl err \<Rightarrow> (Inl err, d)
        | Inr (imported_count, d') \<Rightarrow> (Inr imported_count, d'))"

section \<open>Dates and times\<close>

text \<open>
  A \<open>datetime\<close> of Python is its fields: year, month, day, and hour, minute, second,
  microsecond. Python compares two of them field by field in this order, which is the
  lexicographic order on the tuples. Its constructor accepts exactly the valid ones.
\<close>

type_synonym date = "int \<times> int \<times> int"
type_synonym time = "int \<times> int \<times> int \<times> int"
type_synonym datetime = "date \<times> time"

definition is_leap :: "int \<Rightarrow> bool" where
  "is_leap y = (y mod 4 = 0 \<and> (y mod 100 \<noteq> 0 \<or> y mod 400 = 0))"

definition days_in_month :: "int \<Rightarrow> int \<Rightarrow> int" where
  "days_in_month y m =
     (if m = 2 then (if is_leap y then 29 else 28)
      else if m = 4 \<or> m = 6 \<or> m = 9 \<or> m = 11 then 30 else 31)"

fun valid_date :: "date \<Rightarrow> bool" where
  "valid_date (y, m, d) =
     (1 \<le> y \<and> y \<le> 9999 \<and> 1 \<le> m \<and> m \<le> 12 \<and> 1 \<le> d \<and> d \<le> days_in_month y m)"

fun valid_time :: "time \<Rightarrow> bool" where
  "valid_time (h, mi, s, us) =
     (0 \<le> h \<and> h \<le> 23 \<and> 0 \<le> mi \<and> mi \<le> 59 \<and> 0 \<le> s \<and> s \<le> 59 \<and> 0 \<le> us \<and> us \<le> 999999)"

fun valid_datetime :: "datetime \<Rightarrow> bool" where
  "valid_datetime (dt, tm) = (valid_date dt \<and> valid_time tm)"

text \<open>
  The proleptic Gregorian ordinal of a date, as \<open>date.toordinal\<close> computes it
  (\<open>_days_before_year\<close>, \<open>_days_before_month\<close>), and the microseconds a datetime stands
  from the start of day 0. The difference of two datetimes is a \<open>timedelta\<close>: an exact
  number of microseconds.
\<close>

definition days_before_year :: "int \<Rightarrow> int" where
  "days_before_year y = (y - 1) * 365 + (y - 1) div 4 - (y - 1) div 100 + (y - 1) div 400"

definition days_before_month :: "int \<Rightarrow> int \<Rightarrow> int" where
  "days_before_month y m =
     [0, 0, 31, 59, 90, 120, 151, 181, 212, 243, 273, 304, 334] ! nat m
       + (if m > 2 \<and> is_leap y then 1 else 0)"

fun ymd2ord :: "date \<Rightarrow> int" where
  "ymd2ord (y, m, d) = days_before_year y + days_before_month y m + d"

fun to_micro :: "datetime \<Rightarrow> int" where
  "to_micro (dt, (h, mi, s, us)) =
     (((ymd2ord dt * 24 + h) * 60 + mi) * 60 + s) * 1000000 + us"

text \<open>
  \<open>(a - b).total_seconds()\<close>: the microseconds of the \<open>timedelta\<close> divided by \<open>10**6\<close>,
  a true division of integers, which returns the nearest float.
\<close>

definition total_seconds :: "datetime \<Rightarrow> datetime \<Rightarrow> rat" where
  "total_seconds a b = binary64 (of_int (to_micro a - to_micro b) / 1000000)"

text \<open>\<open>d + timedelta(days=1)\<close> on a valid date before 9999-12-31.\<close>

fun next_day :: "date \<Rightarrow> date" where
  "next_day (y, m, d) =
     (if d < days_in_month y m then (y, m, d + 1)
      else if m < 12 then (y, m + 1, 1)
      else (y + 1, 1, 1))"

text \<open>\<open>dt + timedelta(hours=1)\<close>; past 9999-12-31 Python raises \<open>OverflowError\<close>.\<close>

fun add_one_hour :: "datetime \<Rightarrow> error + datetime" where
  "add_one_hour (dt, (h, mi, s, us)) =
     (if h < 23 then Inr (dt, (h + 1, mi, s, us))
      else if dt = (9999, 12, 31) then Inl OverflowError
      else Inr (next_day dt, (0, mi, s, us)))"

section \<open>The text format of dates and times\<close>

text \<open>
  The store keeps every datetime as text, \<open>YYYY-MM-DD HH:MM:SS\<close>, and a date as
  \<open>YYYY-MM-DD\<close>. \<open>strftime\<close> writes the fields zero-padded (\<open>%Y-%m-%d %H:%M:%S\<close>; the
  microsecond is not written); \<open>strptime\<close> reads this form back and raises \<open>ValueError\<close>
  on anything else. Python's \<open>strptime\<close> also accepts fields without their leading
  zero, and its \<open>%Y\<close> writes a year below 1000 as the platform does; the model is the
  format of the store, and the theorems are about texts in it.
\<close>

definition digit_char :: "int \<Rightarrow> char" where
  "digit_char n = ''0123456789'' ! nat n"

primrec zero_pad :: "nat \<Rightarrow> int \<Rightarrow> string" where
  "zero_pad 0 n = []"
| "zero_pad (Suc k) n = zero_pad k (n div 10) @ [digit_char (n mod 10)]"

definition digit_val :: "char \<Rightarrow> int option" where
  "digit_val c = (if CHR ''0'' \<le> c \<and> c \<le> CHR ''9'' then Some (of_char c - 48) else None)"

fun parse_digits :: "int \<Rightarrow> string \<Rightarrow> int option" where
  "parse_digits acc [] = Some acc"
| "parse_digits acc (c # cs) =
     (case digit_val c of None \<Rightarrow> None | Some v \<Rightarrow> parse_digits (acc * 10 + v) cs)"

fun strftime_date :: "date \<Rightarrow> string" where
  "strftime_date (y, m, d) = zero_pad 4 y @ ''-'' @ zero_pad 2 m @ ''-'' @ zero_pad 2 d"

fun strftime_time :: "time \<Rightarrow> string" where
  "strftime_time (h, mi, s, us) = zero_pad 2 h @ '':'' @ zero_pad 2 mi @ '':'' @ zero_pad 2 s"

fun strftime :: "datetime \<Rightarrow> string" where
  "strftime (dt, tm) = strftime_date dt @ '' '' @ strftime_time tm"

definition strptime_date :: "string \<Rightarrow> error + date" where
  "strptime_date s =
     (if length s = 10 \<and> s ! 4 = CHR ''-'' \<and> s ! 7 = CHR ''-'' then
        (case (parse_digits 0 (take 4 s), parse_digits 0 (take 2 (drop 5 s)),
               parse_digits 0 (drop 8 s)) of
           (Some y, Some m, Some d) \<Rightarrow>
             if valid_date (y, m, d) then Inr (y, m, d) else Inl StrptimeError
         | _ \<Rightarrow> Inl StrptimeError)
      else Inl StrptimeError)"

definition strptime_time :: "string \<Rightarrow> error + time" where
  "strptime_time s =
     (if length s = 8 \<and> s ! 2 = CHR '':'' \<and> s ! 5 = CHR '':'' then
        (case (parse_digits 0 (take 2 s), parse_digits 0 (take 2 (drop 3 s)),
               parse_digits 0 (drop 6 s)) of
           (Some h, Some mi, Some sec) \<Rightarrow>
             if valid_time (h, mi, sec, 0) then Inr (h, mi, sec, 0) else Inl StrptimeError
         | _ \<Rightarrow> Inl StrptimeError)
      else Inl StrptimeError)"

definition strptime :: "string \<Rightarrow> error + datetime" where
  "strptime s =
     (if length s = 19 \<and> s ! 10 = CHR '' '' then
        (case strptime_date (take 10 s) of
           Inl err \<Rightarrow> Inl err
         | Inr dt \<Rightarrow>
             (case strptime_time (drop 11 s) of
                Inl err \<Rightarrow> Inl err
              | Inr tm \<Rightarrow> Inr (dt, tm)))
      else Inl StrptimeError)"

text \<open>
  SQLite's \<open>DATE(x)\<close> on a text in the format of the store is its date part, and
  \<open>NULL\<close> on a text that is no date or time.
\<close>

definition sql_DATE :: "string \<Rightarrow> string option" where
  "sql_DATE s = (case strptime s of Inl err \<Rightarrow> None | Inr (dt, tm) \<Rightarrow> Some (strftime_date dt))"

section \<open>Events of a day\<close>

text \<open>
  \<open>get_events_by_date(date)\<close>. SQLite compares two texts byte by byte, the shorter one
  first when it is a prefix of the other: the lexicographic order on strings. A
  comparison with \<open>NULL\<close> does not hold.
\<close>

definition get_events_by_date :: "db \<Rightarrow> string \<Rightarrow> event list" where
  "get_events_by_date d date =
     (let date_start = date @ '' 00:00:00'';
          date_end = date @ '' 23:59:59''
      in sort_key start_datetime
           (filter (\<lambda>e. (start_datetime e \<le> date_end \<and> end_datetime e \<ge> date_start)
                         \<or> sql_DATE (start_datetime e) = Some date
                         \<or> sql_DATE (end_datetime e) = Some date)
              (events d)))"

section \<open>Aggregation engine\<close>

text \<open>
  The result of \<open>get_tag_hours_for_week\<close>: \<open>{date_str: {tag: hours}}\<close>, the hours
  being floats.
\<close>

type_synonym tag_hours = "string \<rightharpoonup> rat"
type_synonym week_hours = "string \<rightharpoonup> tag_hours"

text \<open>\<open>event['tag'] if event['tag'] else 'Untagged'\<close>.\<close>

definition bucket_tag :: "string option \<Rightarrow> string" where
  "bucket_tag t = (case t of None \<Rightarrow> ''Untagged'' | Some s \<Rightarrow> if s = [] then ''Untagged'' else s)"

text \<open>The first loop: an empty dictionary for every day from \<open>start_date\<close> up to \<open>end_date\<close>.\<close>

function init_days :: "date \<Rightarrow> date \<Rightarrow> week_hours \<Rightarrow> week_hours" where
  "init_days current_date end_date_dt result =
     (if current_date < end_date_dt
      then init_days (next_day current_date) end_date_dt
             (result(strftime_date current_date \<mapsto> Map.empty))
      else result)"
  by pat_completeness auto
termination
proof (relation "measures
    [\<lambda>(c, e, r). nat (fst e + 1 - fst c),
     \<lambda>(c, e, r). nat (12 - fst (snd c)),
     \<lambda>(c, e, r). nat (31 - snd (snd c))]")
  show "wf (measures
    [\<lambda>(c, e, r). nat (fst e + 1 - fst c),
     \<lambda>(c, e, r). nat (12 - fst (snd c)),
     \<lambda>(c, e, r). nat (31 - snd (snd c))])"
    by simp
next
  fix current_date end_date_dt :: date and result :: week_hours
  assume "current_date < end_date_dt"
  then show "((next_day current_date, end_date_dt,
        result(strftime_date current_date \<mapsto> Map.empty)),
       current_date, end_date_dt, result)
      \<in> measures
    [\<lambda>(c, e, r). nat (fst e + 1 - fst c),
     \<lambda>(c, e, r). nat (12 - fst (snd c)),
     \<lambda>(c, e, r). nat (31 - snd (snd c))]"
    by (cases current_date; cases end_date_dt)
      (auto simp: less_prod_def days_in_month_def split: if_splits)
qed

declare init_days.simps [simp del]

text \<open>
  The inner loop, for one event: every day of the range that the event overlaps gets
  the clipped duration added to the bucket of the tag. \<open>result[date_str]\<close> raises
  \<open>KeyError\<close> when the first loop did not make the day's dictionary. The division by
  \<open>3600.0\<close> and \<open>+=\<close> are operations on floats; a new bucket starts from the integer \<open>0\<close>,
  which \<open>+=\<close> converts.
\<close>

function clip_days ::
  "datetime \<Rightarrow> datetime \<Rightarrow> string \<Rightarrow> date \<Rightarrow> date \<Rightarrow> week_hours \<Rightarrow> error + week_hours" where
  "clip_days start_dt end_dt tg current_day end_date_dt result =
     (if current_day < end_date_dt then
        (let day_start = (current_day, (0, 0, 0, 0));
             day_end = (current_day, (23, 59, 59, 999999))
         in if start_dt \<le> day_end \<and> end_dt \<ge> day_start then
              (let clipped_start = max start_dt day_start;
                   clipped_end = min end_dt day_end;
                   duration_seconds = total_seconds clipped_end clipped_start;
                   duration_hours = binary64 (duration_seconds / 3600);
                   date_str = strftime_date current_day
               in case result date_str of
                    None \<Rightarrow> Inl KeyError
                  | Some buckets \<Rightarrow>
                      clip_days start_dt end_dt tg (next_day current_day) end_date_dt
                        (result(date_str \<mapsto>
                           buckets(tg \<mapsto>
                             binary64 ((case buckets tg of None \<Rightarrow> 0 | Some h \<Rightarrow> h)
                               + duration_hours)))))
            else clip_days start_dt end_dt tg (next_day current_day) end_date_dt result)
      else Inr result)"
  by pat_completeness auto
termination
proof (relation "measures
    [\<lambda>(s, e, t, c, ed, r). nat (fst ed + 1 - fst c),
     \<lambda>(s, e, t, c, ed, r). nat (12 - fst (snd c)),
     \<lambda>(s, e, t, c, ed, r). nat (31 - snd (snd c))]", goal_cases)
  case 1
  show ?case by simp
next
  case (2 start_dt end_dt tg current_day end_date_dt result)
  then show ?case
    by (cases current_day; cases end_date_dt)
      (auto simp: less_prod_def days_in_month_def split: if_splits)
next
  case (3 start_dt end_dt tg current_day end_date_dt result)
  then show ?case
    by (cases current_day; cases end_date_dt)
      (auto simp: less_prod_def days_in_month_def split: if_splits)
qed

declare clip_days.simps [simp del]

text \<open>
  The outer loop over the selected events, in the order of the query. \<open>strptime\<close>
  raises \<open>ValueError\<close> on a stored text that is no datetime.
\<close>

fun process_events :: "event list \<Rightarrow> date \<Rightarrow> date \<Rightarrow> week_hours \<Rightarrow> error + week_hours" where
  "process_events [] start_day end_date_dt result = Inr result"
| "process_events (ev # evs) start_day end_date_dt result =
     (case strptime (start_datetime ev) of
        Inl err \<Rightarrow> Inl err
      | Inr start_dt \<Rightarrow>
          (case strptime (end_datetime ev) of
             Inl err \<Rightarrow> Inl err
           | Inr end_dt \<Rightarrow>
               (case clip_days start_dt end_dt (bucket_tag (tag ev)) start_day end_date_dt result of
                  Inl err \<Rightarrow> Inl err
                | Inr result' \<Rightarrow> process_events evs start_day end_date_dt result')))"

text \<open>
  \<open>get_tag_hours_for_week(start_date, end_date)\<close>: the query (a comparison of texts,
  ordered by \<open>start_datetime\<close>, rows with the same start in the order of the table),
  the two dates parsed with \<open>%Y-%m-%d\<close>, and the loops.
\<close>

definition week_events :: "db \<Rightarrow> string \<Rightarrow> string \<Rightarrow> event list" where
  "week_events d start_date end_date =
     sort_key start_datetime
       (filter (\<lambda>e. start_datetime e < end_date \<and> end_datetime e > start_date) (events d))"

definition get_tag_hours_for_week :: "db \<Rightarrow> string \<Rightarrow> string \<Rightarrow> error + week_hours" where
  "get_tag_hours_for_week d start_date end_date =
     (let evs = week_events d start_date end_date
      in case strptime_date start_date of
           Inl err \<Rightarrow> Inl err
         | Inr current_date \<Rightarrow>
             (case strptime_date end_date of
                Inl err \<Rightarrow> Inl err
              | Inr end_date_dt \<Rightarrow>
                  process_events evs current_date end_date_dt
                    (init_days current_date end_date_dt Map.empty)))"

section \<open>Schema manager: migration of the legacy table\<close>

text \<open>
  A row of the legacy \<open>events\<close> table, as \<open>migrate_schema\<close> reads it:
  \<open>SELECT id, date, time, title, description, created_at FROM events\<close>.
\<close>

record legacy_event =
  legacy_id :: int
  legacy_date :: pyval
  legacy_time :: pyval
  legacy_title :: string
  legacy_description :: "string option"
  legacy_created_at :: "string option"

text \<open>The two datetimes of a migrated row.\<close>

definition migrate_times :: "pyval \<Rightarrow> pyval \<Rightarrow> error + (string \<times> string)" where
  "migrate_times date time =
     (if truthy time then
        (let start_datetime = py_str date @ '' '' @ py_str time @ '':00''
         in case strptime start_datetime of
              Inl err \<Rightarrow> Inl err
            | Inr start_dt \<Rightarrow>
                (case add_one_hour start_dt of
                   Inl err \<Rightarrow> Inl err
                 | Inr end_dt \<Rightarrow> Inr (start_datetime, strftime end_dt)))
      else Inr (py_str date @ '' 09:00:00'', py_str date @ '' 17:00:00''))"

text \<open>
  The loop over the legacy rows; \<open>new_rows\<close> is \<open>events_new\<close> so far. The insert gives
  the id, so it fails with \<open>IntegrityError\<close> on an id the new table already has.
\<close>

fun migrate_rows :: "legacy_event list \<Rightarrow> event list \<Rightarrow> error + event list" where
  "migrate_rows [] new_rows = Inr new_rows"
| "migrate_rows (old # olds) new_rows =
     (case migrate_times (legacy_date old) (legacy_time old) of
        Inl err \<Rightarrow> Inl err
      | Inr (start_text, end_text) \<Rightarrow>
          if legacy_id old \<in> set (map event_id new_rows) then Inl IntegrityError
          else migrate_rows olds
                 (new_rows @
                  [\<lparr>event_id = legacy_id old, start_datetime = start_text,
                    end_datetime = end_text, title = legacy_title old,
                    description = legacy_description old, tag = None,
                    created_at = legacy_created_at old\<rparr>]))"

text \<open>
  \<open>migrate_schema(conn)\<close>: the new \<open>events\<close> table and its \<open>sqlite_sequence\<close> entry,
  the largest id inserted.
\<close>

definition migrate_schema :: "legacy_event list \<Rightarrow> error + (event list \<times> int)" where
  "migrate_schema old_events =
     (case migrate_rows old_events [] of
        Inl err \<Rightarrow> Inl err
      | Inr new_rows \<Rightarrow> Inr (new_rows, fold max (map event_id new_rows) 0))"

section \<open>Notions the properties are stated with\<close>

text \<open>A record has a datetime under a key when the key holds a non-empty text.\<close>

definition has_datetime :: "pydict \<Rightarrow> string \<Rightarrow> bool" where
  "has_datetime ev k = (case ev k of Some (PyStr s) \<Rightarrow> s \<noteq> [] | _ \<Rightarrow> False)"

definition has_both_datetimes :: "pydict \<Rightarrow> bool" where
  "has_both_datetimes ev = (has_datetime ev ''start_datetime'' \<and> has_datetime ev ''end_datetime'')"

text \<open>The columns \<open>bulk_add_events\<close> writes for a record, apart from id and \<open>created_at\<close>.\<close>

definition record_columns ::
  "pyval \<Rightarrow> pydict \<Rightarrow> string \<times> string \<times> string \<times> string option \<times> string option" where
  "record_columns tag_v ev =
     (py_str (dict_get ev ''start_datetime'' PyNone),
      py_str (dict_get ev ''end_datetime'' PyNone),
      py_str (dict_get ev ''title'' (PyStr ''(no title)'')),
      sql_text (dict_get ev ''description'' (PyStr [])),
      sql_text tag_v)"

definition event_columns ::
  "event \<Rightarrow> string \<times> string \<times> string \<times> string option \<times> string option" where
  "event_columns e = (start_datetime e, end_datetime e, title e, description e, tag e)"

text \<open>An event with the empty string for a tag, read as an event with no tag.\<close>

definition null_tag :: "event \<Rightarrow> event" where
  "null_tag e = (if tag e = Some [] then e\<lparr>tag := None\<rparr> else e)"

text \<open>
  The datetimes the text format holds: valid ones with no microseconds.
\<close>

fun microsecond :: "datetime \<Rightarrow> int" where
  "microsecond (dt, (h, mi, s, us)) = us"

definition stored_datetime :: "datetime \<Rightarrow> bool" where
  "stored_datetime dt = (valid_datetime dt \<and> microsecond dt = 0)"

text \<open>
  The legacy table holds a date as \<open>YYYY-MM-DD\<close> and a time, where there is one, as
  \<open>HH:MM\<close>: the texts for which \<open>f"{date} {time}:00"\<close> is a datetime of the store.
  With a time the end is written by \<open>strftime\<close>, so the year is one of four digits,
  and the hour after the start is still a date of Python.
\<close>

definition clock_text :: "int \<Rightarrow> int \<Rightarrow> string" where
  "clock_text h mi = zero_pad 2 h @ '':'' @ zero_pad 2 mi"

definition legacy_row_ok :: "legacy_event \<Rightarrow> bool" where
  "legacy_row_ok r =
     (\<exists>D. valid_date D \<and> legacy_date r = PyStr (strftime_date D)
        \<and> (truthy (legacy_time r) \<longrightarrow>
             1000 \<le> fst D
             \<and> (\<exists>h mi. 0 \<le> h \<and> h \<le> 23 \<and> 0 \<le> mi \<and> mi \<le> 59
                   \<and> legacy_time r = PyStr (clock_text h mi)
                   \<and> (D, h) \<noteq> ((9999, 12, 31), 23))))"

text \<open>The second text is a datetime one hour after the first.\<close>

definition hour_later :: "string \<Rightarrow> string \<Rightarrow> bool" where
  "hour_later start_text end_text =
     (case (strptime start_text, strptime end_text) of
        (Inr a, Inr b) \<Rightarrow> to_micro b = to_micro a + 3600 * 1000000
      | _ \<Rightarrow> False)"

text \<open>What the specification says of a migrated row.\<close>

definition migrated :: "legacy_event \<Rightarrow> event \<Rightarrow> bool" where
  "migrated r e =
     (event_id e = legacy_id r \<and> created_at e = legacy_created_at r
      \<and> title e = legacy_title r \<and> description e = legacy_description r \<and> tag e = None
      \<and> (if truthy (legacy_time r)
          then start_datetime e = py_str (legacy_date r) @ '' '' @ py_str (legacy_time r) @ '':00''
               \<and> hour_later (start_datetime e) (end_datetime e)
          else start_datetime e = py_str (legacy_date r) @ '' 09:00:00''
               \<and> end_datetime e = py_str (legacy_date r) @ '' 17:00:00''))"

text \<open>
  The parts of the body of the inner loop: whether an event from \<open>s\<close> to \<open>t\<close> overlaps
  the day \<open>D\<close>, the hours of it that fall on the day, and the update of the day's
  dictionary.
\<close>

definition day_overlap :: "datetime \<Rightarrow> datetime \<Rightarrow> date \<Rightarrow> bool" where
  "day_overlap s t D = (s \<le> (D, (23, 59, 59, 999999)) \<and> t \<ge> (D, (0, 0, 0, 0)))"

definition clipped_hours :: "datetime \<Rightarrow> datetime \<Rightarrow> date \<Rightarrow> rat" where
  "clipped_hours s t D =
     binary64 (total_seconds (min t (D, (23, 59, 59, 999999))) (max s (D, (0, 0, 0, 0))) / 3600)"

definition add_hours :: "string \<Rightarrow> rat \<Rightarrow> tag_hours \<Rightarrow> tag_hours" where
  "add_hours tg h buckets =
     buckets(tg \<mapsto> binary64 ((case buckets tg of None \<Rightarrow> 0 | Some x \<Rightarrow> x) + h))"

text \<open>The hours reported for a tag on a date; \<open>None\<close> when there are none.\<close>

definition hours_at :: "error + week_hours \<Rightarrow> string \<Rightarrow> string \<Rightarrow> rat option" where
  "hours_at res date_str tg =
     (case res of
        Inl err \<Rightarrow> None
      | Inr r \<Rightarrow> (case r date_str of None \<Rightarrow> None | Some buckets \<Rightarrow> buckets tg))"

text \<open>
  Hours that may be absent: the sum of two of them, and of a list of them from the
  left to the right, each addition one of floats. What is absent adds nothing; the
  sum is absent when every part is.
\<close>

fun plus_hours :: "rat option \<Rightarrow> rat option \<Rightarrow> rat option" where
  "plus_hours x None = x"
| "plus_hours None (Some b) = Some b"
| "plus_hours (Some a) (Some b) = Some (binary64 (a + b))"

definition sum_hours :: "rat option list \<Rightarrow> rat option" where
  "sum_hours xs = foldl plus_hours None xs"

text \<open>
  What one event adds to the bucket of the tag \<open>tg\<close> on the day \<open>D\<close>: the hours of it
  that fall on the day, when it overlaps the day and \<open>tg\<close> is its tag.
\<close>

definition event_day_hours :: "event \<Rightarrow> date \<Rightarrow> string \<Rightarrow> rat option" where
  "event_day_hours e D tg =
     (case (strptime (start_datetime e), strptime (end_datetime e)) of
        (Inr s, Inr t) \<Rightarrow>
          if bucket_tag (tag e) = tg \<and> day_overlap s t D then Some (clipped_hours s t D)
          else None
      | _ \<Rightarrow> None)"

section \<open>Example states\<close>

text \<open>Concrete states on which the theorems below are exercised.\<close>

definition example_db :: db where
  "example_db =
     \<lparr>events =
        [\<lparr>event_id = 1, start_datetime = ''2024-06-01 10:00:00'',
          end_datetime = ''2024-06-01 12:00:00'', title = ''a'', description = Some [],
          tag = Some ''Work'', created_at = Some ''2024-05-01 00:00:00''\<rparr>,
         \<lparr>event_id = 2, start_datetime = ''2024-06-01 11:00:00'',
          end_datetime = ''2024-06-01 13:00:00'', title = ''b'', description = Some [],
          tag = Some ''Work'', created_at = Some ''2024-05-01 00:00:00''\<rparr>,
         \<lparr>event_id = 3, start_datetime = ''2024-06-02 11:00:00'',
          end_datetime = ''2024-06-02 13:00:00'', title = ''c'', description = None,
          tag = Some ''Personal'', created_at = Some ''2024-05-01 00:00:00''\<rparr>],
      events_seq = 3,
      tags =
        [\<lparr>tag_id = 1, name = ''Work'', color = ''#007bff'', order_index = 1,
          tag_created_at = Some ''2024-05-01 00:00:00''\<rparr>,
         \<lparr>tag_id = 2, name = ''Personal'', color = ''#28a745'', order_index = 2,
          tag_created_at = Some ''2024-05-01 00:00:00''\<rparr>],
      tags_seq = 2\<rparr>"

definition empty_db :: db where
  "empty_db = \<lparr>events = [], events_seq = 0, tags = [], tags_seq = 0\<rparr>"

definition negative_order_db :: db where
  "negative_order_db =
     snd (add_tag empty_db ''2024-05-01 00:00:00'' ''Archive'' ''#cccccc'' (Some (- 5)))"

text \<open>
  The order index the specification words for \<open>add_tag\<close> without \<open>order_index\<close>:
  \<open>max(existing order_index, 0) + 1\<close>.
\<close>

definition spec_order_index :: "tag_row list \<Rightarrow> int" where
  "spec_order_index ts = fold max (map order_index ts) 0 + 1"

definition import_records :: "pydict list" where
  "import_records =
     [[''title'' \<mapsto> PyStr ''Kickoff'', ''start_datetime'' \<mapsto> PyStr ''2024-06-03 09:00:00'',
       ''end_datetime'' \<mapsto> PyStr ''2024-06-03 10:00:00''],
      [''title'' \<mapsto> PyStr ''Broken'', ''start_datetime'' \<mapsto> PyStr ''2024-06-03 11:00:00''],
      [''start_datetime'' \<mapsto> PyStr ''2024-06-04 09:00:00'',
       ''end_datetime'' \<mapsto> PyStr ''2024-06-04 09:30:00'', ''description'' \<mapsto> PyStr ''weekly''],
      [''title'' \<mapsto> PyStr ''Lunch'', ''start_datetime'' \<mapsto> PyStr ''2024-06-05 12:00:00'',
       ''end_datetime'' \<mapsto> PyStr ''2024-06-05 13:00:00'', ''description'' \<mapsto> PyNone]]"

definition untagged_db :: db where
  "untagged_db =
     snd (add_event empty_db ''2024-05-20 08:00:00''
            (PyStr ''2024-06-01 10:00:00'') (PyStr ''2024-06-01 12:00:00'') (PyStr ''Walk'')
            Omitted Omitted)"

definition null_tagged_db :: db where
  "null_tagged_db =
     snd (add_event empty_db ''2024-05-20 08:00:00''
            (PyStr ''2024-06-01 10:00:00'') (PyStr ''2024-06-01 12:00:00'') (PyStr ''Walk'')
            Omitted (Passed PyNone))"

definition trip_db :: db where
  "trip_db =
     snd (add_event
       (snd (add_event empty_db ''2024-05-20 08:00:00''
          (PyStr ''2024-06-01 22:00:00'') (PyStr ''2024-06-03 08:00:00'') (PyStr ''Trip'')
          Omitted (Passed (PyStr ''Personal''))))
       ''2024-05-20 08:05:00''
       (PyStr ''2024-05-31 09:00:00'') (PyStr ''2024-05-31 10:00:00'') (PyStr ''Packing'')
       Omitted Omitted)"

definition legacy_rows :: "legacy_event list" where
  "legacy_rows =
     [\<lparr>legacy_id = 1, legacy_date = PyStr ''2024-01-01'', legacy_time = PyStr ''14:30'',
       legacy_title = ''Dentist'', legacy_description = None,
       legacy_created_at = Some ''2023-12-24 18:00:00''\<rparr>,
      \<lparr>legacy_id = 2, legacy_date = PyStr ''2024-01-02'', legacy_time = PyNone,
       legacy_title = ''Holiday'', legacy_description = Some ''all day'',
       legacy_created_at = Some ''2023-12-25 09:30:00''\<rparr>,
      \<lparr>legacy_id = 5, legacy_date = PyStr ''2024-02-28'', legacy_time = PyStr ''23:45'',
       legacy_title = ''Night train'', legacy_description = None,
       legacy_created_at = None\<rparr>]"

definition overlap_db :: db where
  "overlap_db =
     snd (add_event
       (snd (add_event empty_db ''2024-05-20 08:00:00''
          (PyStr ''2024-06-01 10:00:00'') (PyStr ''2024-06-01 12:00:00'') (PyStr ''Standup'')
          Omitted (Passed (PyStr ''Work''))))
       ''2024-05-20 08:05:00''
       (PyStr ''2024-06-01 11:00:00'') (PyStr ''2024-06-01 13:00:00'') (PyStr ''Review'')
       Omitted (Passed (PyStr ''Work'')))"

definition one_day_db :: db where
  "one_day_db =
     snd (add_event empty_db ''2024-05-20 08:00:00''
            (PyStr ''2024-06-01 10:00:00'') (PyStr ''2024-06-01 12:00:00'') (PyStr ''Standup'')
            Omitted (Passed (PyStr ''Work'')))"

definition midnight_db :: db where
  "midnight_db =
     snd (add_event empty_db ''2024-05-20 08:00:00''
            (PyStr ''2024-06-01 23:00:00'') (PyStr ''2024-06-02 01:00:00'') (PyStr ''Release'')
            Omitted (Passed (PyStr ''Work'')))"

definition tenths_db :: db where
  "tenths_db =
     snd (add_event
       (snd (add_event
          (snd (add_event empty_db ''2024-05-20 08:00:00''
             (PyStr ''2024-06-01 09:00:00'') (PyStr ''2024-06-01 09:06:00'') (PyStr ''Mail'')
             Omitted (Passed (PyStr ''Work''))))
          ''2024-05-20 08:05:00''
          (PyStr ''2024-06-01 10:00:00'') (PyStr ''2024-06-01 10:06:00'') (PyStr ''Call'')
          Omitted (Passed (PyStr ''Work''))))
       ''2024-05-20 08:10:00''
       (PyStr ''2024-06-01 11:00:00'') (PyStr ''2024-06-01 11:06:00'') (PyStr ''Notes'')
       Omitted (Passed (PyStr ''Work'')))"

definition retagged_db :: db where
  "retagged_db =
     snd (update_event one_day_db 1
            (PyStr ''2024-06-01 10:00:00'') (PyStr ''2024-06-01 12:00:00'') (PyStr ''Standup'')
            Omitted Omitted)"

section \<open>Tag store: properties\<close>

lemma find_tag_id: "find (\<lambda>t. tag_id t = tid) ts = Some t \<Longrightarrow> t \<in> set ts \<and> tag_id t = tid"
  by (induction ts) (auto split: if_splits)

lemma find_None_iff_id: "find (\<lambda>t. tag_id t = tid) ts = None \<longleftrightarrow> tid \<notin> tag_id ` set ts"
  by (induction ts) auto

lemma sql_max_Nil_iff: "sql_max xs = None \<longleftrightarrow> xs = []"
  by (cases xs) (auto split: option.splits)

lemma sql_max_eq_Max: "xs \<noteq> [] \<Longrightarrow> sql_max xs = Some (Max (set xs))"
proof (induction xs)
  case Nil
  then show ?case by simp
next
  case (Cons x xs)
  show ?case
  proof (cases "xs = []")
    case True
    then show ?thesis by simp
  next
    case False
    with Cons.IH show ?thesis by simp
  qed
qed

lemma fold_max_eq: "fold max xs (a::int) = Max (insert a (set xs))"
proof (induction xs arbitrary: a)
  case Nil
  then show ?case by simp
next
  case (Cons x xs)
  have "Max (insert (max x a) (set xs)) = Max (insert a (insert x (set xs)))"
    by (cases "set xs = {}") (simp_all add: max.commute max.left_commute max.assoc)
  with Cons show ?case by simp
qed

text \<open>
  C5. \<open>delete_tag\<close> on a tag that \<open>N\<close> events reference returns
  \<open>{success: True, event_count: N}\<close>; each of those events then has \<open>tag = NULL\<close>, every
  other event is unchanged, and the tag is gone from \<open>get_all_tags\<close> (by id, and by name
  when names are unique). On an id that is not in the table it returns the failure
  dictionary and changes nothing.
\<close>

theorem delete_tag_detaches_events:
  "(\<forall>t. find (\<lambda>t. tag_id t = tid) (tags d) = Some t \<longrightarrow>
      (let tag_events = filter (\<lambda>e. tag e = Some (name t)) (events d);
           (r, d') = delete_tag d tid
       in r = \<lparr>success = True, event_count = Some (int (length tag_events)), error_msg = None\<rparr>
          \<and> events d' = map (detach_event_tag (name t)) (events d)
          \<and> length (events d') = length (events d)
          \<and> (\<forall>i < length (events d).
                (tag (events d ! i) = Some (name t) \<longrightarrow>
                   events d' ! i = (events d ! i)\<lparr>tag := None\<rparr>)
              \<and> (tag (events d ! i) \<noteq> Some (name t) \<longrightarrow> events d' ! i = events d ! i))
          \<and> tid \<notin> tag_id ` set (get_all_tags d')
          \<and> (distinct (map name (tags d)) \<longrightarrow> name t \<notin> name ` set (get_all_tags d'))))
   \<and> (tid \<notin> tag_id ` set (tags d) \<longrightarrow>
        delete_tag d tid =
          (\<lparr>success = False, event_count = None, error_msg = Some ''Tag not found''\<rparr>, d))"
proof (intro conjI allI impI)
  fix t assume f: "find (\<lambda>t. tag_id t = tid) (tags d) = Some t"
  have ev: "events (snd (delete_tag d tid)) = map (detach_event_tag (name t)) (events d)"
  proof (cases "filter (\<lambda>e. tag e = Some (name t)) (events d) = []")
    case True
    then have "\<forall>e \<in> set (events d). tag e \<noteq> Some (name t)"
      by (simp add: filter_empty_conv)
    then have "map (detach_event_tag (name t)) (events d) = events d"
      by (simp add: detach_event_tag_def map_idI)
    then show ?thesis using f True by (simp add: delete_tag_def Let_def)
  next
    case False
    then show ?thesis using f by (simp add: delete_tag_def Let_def)
  qed
  have tg: "tags (snd (delete_tag d tid)) = filter (\<lambda>u. tag_id u \<noteq> tid) (tags d)"
    using f by (simp add: delete_tag_def Let_def)
  have r: "fst (delete_tag d tid) =
      \<lparr>success = True,
       event_count = Some (int (length (filter (\<lambda>e. tag e = Some (name t)) (events d)))),
       error_msg = None\<rparr>"
    using f by (simp add: delete_tag_def Let_def)
  have nth: "\<forall>i < length (events d).
                (tag (events d ! i) = Some (name t) \<longrightarrow>
                   events (snd (delete_tag d tid)) ! i = (events d ! i)\<lparr>tag := None\<rparr>)
              \<and> (tag (events d ! i) \<noteq> Some (name t) \<longrightarrow>
                   events (snd (delete_tag d tid)) ! i = events d ! i)"
    by (simp add: ev detach_event_tag_def)
  have gone: "tid \<notin> tag_id ` set (get_all_tags (snd (delete_tag d tid)))"
    by (auto simp: get_all_tags_def tg)
  have gone_name: "name t \<notin> name ` set (get_all_tags (snd (delete_tag d tid)))"
    if dist: "distinct (map name (tags d))"
  proof
    assume "name t \<in> name ` set (get_all_tags (snd (delete_tag d tid)))"
    then obtain u where u: "u \<in> set (tags d)" "tag_id u \<noteq> tid" "name u = name t"
      by (auto simp: get_all_tags_def tg)
    have t: "t \<in> set (tags d)" "tag_id t = tid" using find_tag_id [OF f] by simp_all
    from dist have "inj_on name (set (tags d))" by (simp add: distinct_map)
    with u t have "u = t" by (auto dest: inj_onD)
    with u t show False by simp
  qed
  show "let tag_events = filter (\<lambda>e. tag e = Some (name t)) (events d);
           (r, d') = delete_tag d tid
       in r = \<lparr>success = True, event_count = Some (int (length tag_events)), error_msg = None\<rparr>
          \<and> events d' = map (detach_event_tag (name t)) (events d)
          \<and> length (events d') = length (events d)
          \<and> (\<forall>i < length (events d).
                (tag (events d ! i) = Some (name t) \<longrightarrow>
                   events d' ! i = (events d ! i)\<lparr>tag := None\<rparr>)
              \<and> (tag (events d ! i) \<noteq> Some (name t) \<longrightarrow> events d' ! i = events d ! i))
          \<and> tid \<notin> tag_id ` set (get_all_tags d')
          \<and> (distinct (map name (tags d)) \<longrightarrow> name t \<notin> name ` set (get_all_tags d'))"
    unfolding Let_def case_prod_unfold
    using r ev nth gone gone_name by simp
next
  assume "tid \<notin> tag_id ` set (tags d)"
  then have "find (\<lambda>t. tag_id t = tid) (tags d) = None"
    by (simp add: find_None_iff_id)
  then show "delete_tag d tid =
          (\<lparr>success = False, event_count = None, error_msg = Some ''Tag not found''\<rparr>, d)"
    by (simp add: delete_tag_def)
qed

theorem delete_tag_detaches_events_witness:
  "find (\<lambda>t. tag_id t = 1) (tags example_db) = Some (hd (tags example_db))
   \<and> fst (delete_tag example_db 1) = \<lparr>success = True, event_count = Some 2, error_msg = None\<rparr>
   \<and> map tag (events (snd (delete_tag example_db 1))) = [None, None, Some ''Personal'']
   \<and> 1 \<notin> tag_id ` set (get_all_tags (snd (delete_tag example_db 1)))
   \<and> 7 \<notin> tag_id ` set (tags example_db)
   \<and> delete_tag example_db 7 =
       (\<lparr>success = False, event_count = None, error_msg = Some ''Tag not found''\<rparr>, example_db)"
proof -
  have h: "find (\<lambda>t. tag_id t = 1) (tags example_db) = Some (hd (tags example_db))"
    by (simp add: example_db_def)
  have n: "7 \<notin> tag_id ` set (tags example_db)"
    by (simp add: example_db_def)
  note th = delete_tag_detaches_events [of 1 example_db, THEN conjunct1, rule_format, OF h,
      unfolded Let_def case_prod_unfold]
  from th have r: "fst (delete_tag example_db 1) =
      \<lparr>success = True,
       event_count = Some (int (length (filter (\<lambda>e. tag e = Some (name (hd (tags example_db))))
                                  (events example_db)))),
       error_msg = None\<rparr>"
    by blast
  from th have ev: "events (snd (delete_tag example_db 1)) =
      map (detach_event_tag (name (hd (tags example_db)))) (events example_db)"
    by blast
  from th have g: "1 \<notin> tag_id ` set (get_all_tags (snd (delete_tag example_db 1)))"
    by blast
  have r': "fst (delete_tag example_db 1) = \<lparr>success = True, event_count = Some 2, error_msg = None\<rparr>"
    unfolding r by (simp add: example_db_def)
  have ev': "map tag (events (snd (delete_tag example_db 1))) = [None, None, Some ''Personal'']"
    unfolding ev by (simp add: example_db_def detach_event_tag_def)
  from delete_tag_detaches_events [of 7 example_db, THEN conjunct2, rule_format, OF n] h n r' ev' g
  show ?thesis by blast
qed

text \<open>
  C6. \<open>add_tag\<close> with a name some tag already has, and \<open>update_tag\<close> of an existing tag to
  a name a different tag has, both fail with \<open>DuplicateTag\<close>, and the state the call
  returns (tags and events) is the state before the call.
\<close>

theorem duplicate_tag_leaves_state:
  "(nm \<in> name ` set (tags d) \<longrightarrow>
      add_tag d now nm col order_index_arg = (Inl (DuplicateTag nm), d))
   \<and> (tid \<in> tag_id ` set (tags d)
        \<and> (\<exists>u \<in> set (tags d). tag_id u \<noteq> tid \<and> name u = nm) \<longrightarrow>
      update_tag d tid nm col = (Inl (DuplicateTag nm), d))"
proof (intro conjI impI)
  assume "nm \<in> name ` set (tags d)"
  then show "add_tag d now nm col order_index_arg = (Inl (DuplicateTag nm), d)"
    by (simp add: add_tag_def Let_def)
next
  assume a: "tid \<in> tag_id ` set (tags d)
        \<and> (\<exists>u \<in> set (tags d). tag_id u \<noteq> tid \<and> name u = nm)"
  then obtain t where "find (\<lambda>t. tag_id t = tid) (tags d) = Some t"
    using find_None_iff_id [of tid "tags d"] by (cases "find (\<lambda>t. tag_id t = tid) (tags d)") auto
  moreover from a have "list_ex (\<lambda>u. tag_id u \<noteq> tid \<and> name u = nm) (tags d)"
    by (simp add: list_ex_iff)
  ultimately show "update_tag d tid nm col = (Inl (DuplicateTag nm), d)"
    by (simp add: update_tag_def Let_def)
qed

theorem duplicate_tag_leaves_state_witness:
  "distinct (map name (tags example_db))
   \<and> ''Work'' \<in> name ` set (tags example_db)
   \<and> add_tag example_db ''2024-05-02 00:00:00'' ''Work'' ''#000000'' None
       = (Inl (DuplicateTag ''Work''), example_db)
   \<and> 2 \<in> tag_id ` set (tags example_db)
   \<and> (\<exists>u \<in> set (tags example_db). tag_id u \<noteq> 2 \<and> name u = ''Work'')
   \<and> update_tag example_db 2 ''Work'' ''#000000'' = (Inl (DuplicateTag ''Work''), example_db)"
proof -
  have h1: "''Work'' \<in> name ` set (tags example_db)"
    by (simp add: example_db_def)
  have h2: "2 \<in> tag_id ` set (tags example_db)
     \<and> (\<exists>u \<in> set (tags example_db). tag_id u \<noteq> 2 \<and> name u = ''Work'')"
    by (simp add: example_db_def)
  have h3: "distinct (map name (tags example_db))"
    by (simp add: example_db_def)
  from duplicate_tag_leaves_state [of "''Work''" example_db "''2024-05-02 00:00:00''" "''#000000''" None 2,
      THEN conjunct1, rule_format, OF h1]
    duplicate_tag_leaves_state [of "''Work''" example_db "''2024-05-02 00:00:00''" "''#000000''" None 2,
      THEN conjunct2, rule_format, OF h2] h1 h2 h3
  show ?thesis by simp
qed

text \<open>
  C7. \<open>update_tag\<close> of an existing tag to a new name that no other tag has succeeds;
  the tag row and the events are updated in the one state it returns: every event whose
  tag was the old name now carries the new name, every other event is unchanged.
  \<open>update_tag\<close> on an id that is not in the table raises \<open>NotFound\<close>.
\<close>

theorem update_tag_renames_events:
  "(\<forall>t. find (\<lambda>t. tag_id t = tid) (tags d) = Some t \<and> name t \<noteq> nm
        \<and> \<not> (\<exists>u \<in> set (tags d). tag_id u \<noteq> tid \<and> name u = nm) \<longrightarrow>
      (let (r, d') = update_tag d tid nm col
       in r = Inr ()
          \<and> tags d' = map (\<lambda>u. if tag_id u = tid then u\<lparr>name := nm, color := col\<rparr> else u) (tags d)
          \<and> length (events d') = length (events d)
          \<and> (\<forall>i < length (events d).
                (tag (events d ! i) = Some (name t) \<longrightarrow>
                   events d' ! i = (events d ! i)\<lparr>tag := Some nm\<rparr>)
              \<and> (tag (events d ! i) \<noteq> Some (name t) \<longrightarrow> events d' ! i = events d ! i))))
   \<and> (tid \<notin> tag_id ` set (tags d) \<longrightarrow> update_tag d tid nm col = (Inl (NotFound tid), d))"
proof (intro conjI allI impI)
  fix t
  assume a: "find (\<lambda>t. tag_id t = tid) (tags d) = Some t \<and> name t \<noteq> nm
        \<and> \<not> (\<exists>u \<in> set (tags d). tag_id u \<noteq> tid \<and> name u = nm)"
  then have nodup: "\<not> list_ex (\<lambda>u. tag_id u \<noteq> tid \<and> name u = nm) (tags d)"
    by (simp add: list_ex_iff)
  have u: "update_tag d tid nm col =
      (Inr (), d\<lparr>events := map (rename_event_tag (name t) nm) (events d),
                 tags := map (\<lambda>u. if tag_id u = tid then u\<lparr>name := nm, color := col\<rparr> else u)
                           (tags d)\<rparr>)"
    using a nodup by (simp add: update_tag_def Let_def)
  show "let (r, d') = update_tag d tid nm col
       in r = Inr ()
          \<and> tags d' = map (\<lambda>u. if tag_id u = tid then u\<lparr>name := nm, color := col\<rparr> else u) (tags d)
          \<and> length (events d') = length (events d)
          \<and> (\<forall>i < length (events d).
                (tag (events d ! i) = Some (name t) \<longrightarrow>
                   events d' ! i = (events d ! i)\<lparr>tag := Some nm\<rparr>)
              \<and> (tag (events d ! i) \<noteq> Some (name t) \<longrightarrow> events d' ! i = events d ! i))"
    by (simp add: u rename_event_tag_def)
next
  assume "tid \<notin> tag_id ` set (tags d)"
  then have "find (\<lambda>t. tag_id t = tid) (tags d) = None"
    by (simp add: find_None_iff_id)
  then show "update_tag d tid nm col = (Inl (NotFound tid), d)"
    by (simp add: update_tag_def)
qed

theorem update_tag_renames_events_witness:
  "find (\<lambda>t. tag_id t = 1) (tags example_db) = Some (hd (tags example_db))
   \<and> name (hd (tags example_db)) \<noteq> ''Job''
   \<and> \<not> (\<exists>u \<in> set (tags example_db). tag_id u \<noteq> 1 \<and> name u = ''Job'')
   \<and> fst (update_tag example_db 1 ''Job'' ''#111111'') = Inr ()
   \<and> map tag (events (snd (update_tag example_db 1 ''Job'' ''#111111'')))
       = [Some ''Job'', Some ''Job'', Some ''Personal'']
   \<and> map name (tags (snd (update_tag example_db 1 ''Job'' ''#111111''))) = [''Job'', ''Personal'']
   \<and> 7 \<notin> tag_id ` set (tags example_db)
   \<and> update_tag example_db 7 ''Job'' ''#111111'' = (Inl (NotFound 7), example_db)"
proof -
  have h: "find (\<lambda>t. tag_id t = 1) (tags example_db) = Some (hd (tags example_db))
     \<and> name (hd (tags example_db)) \<noteq> ''Job''
     \<and> \<not> (\<exists>u \<in> set (tags example_db). tag_id u \<noteq> 1 \<and> name u = ''Job'')"
    by (simp add: example_db_def)
  have n: "7 \<notin> tag_id ` set (tags example_db)"
    by (simp add: example_db_def)
  from update_tag_renames_events [of 1 example_db "''Job''" "''#111111''", THEN conjunct1, rule_format, OF h]
    update_tag_renames_events [of 7 example_db "''Job''" "''#111111''", THEN conjunct2, rule_format, OF n] h n
  show ?thesis
    by (simp add: example_db_def Let_def case_prod_unfold update_tag_def rename_event_tag_def)
qed

text \<open>
  C8, as stated, fails: after \<open>add_tag('Archive', '#cccccc', -5)\<close> on an empty table,
  \<open>add_tag('Later', '#000000')\<close> stores order index \<open>-4\<close>, where
  \<open>max(existing order_index, 0) + 1\<close> is \<open>1\<close>.
\<close>

theorem add_tag_spec_order_counterexample:
  "fst (add_tag negative_order_db ''2024-05-02 00:00:00'' ''Later'' ''#000000'' None) = Inr 2
   \<and> map order_index (tags negative_order_db) = [- 5]
   \<and> map order_index
        (tags (snd (add_tag negative_order_db ''2024-05-02 00:00:00'' ''Later'' ''#000000'' None)))
      = [- 5, - 4]
   \<and> spec_order_index (tags negative_order_db) = 1
   \<and> order_index (last (tags (snd
          (add_tag negative_order_db ''2024-05-02 00:00:00'' ''Later'' ''#000000'' None))))
       \<noteq> spec_order_index (tags negative_order_db)"
  by (simp add: negative_order_db_def empty_db_def add_tag_def Let_def next_rowid_def
      or_zero_def spec_order_index_def)

text \<open>
  C8, amended. \<open>add_tag\<close> without \<open>order_index\<close> and with an unused name stores the
  largest existing order index plus one, and \<open>1\<close> on an empty table. That is
  \<open>max(existing order_index, 0) + 1\<close> whenever the table is empty or its largest order
  index is not negative.
\<close>

theorem add_tag_default_order:
  "nm \<notin> name ` set (tags d) \<Longrightarrow>
   (let (r, d') = add_tag d now nm col None;
        new_id = next_rowid (map tag_id (tags d)) (tags_seq d);
        oi = (if tags d = [] then 1 else Max (order_index ` set (tags d)) + 1)
    in r = Inr new_id
       \<and> tags d' = tags d @ [\<lparr>tag_id = new_id, name = nm, color = col, order_index = oi,
                              tag_created_at = Some now\<rparr>]
       \<and> events d' = events d
       \<and> (tags d \<noteq> [] \<and> 0 \<le> Max (order_index ` set (tags d)) \<longrightarrow>
            oi = spec_order_index (tags d))
       \<and> (tags d = [] \<longrightarrow> oi = spec_order_index (tags d)))"
proof -
  assume fresh: "nm \<notin> name ` set (tags d)"
  have oi: "or_zero (sql_max (map order_index (tags d))) + 1
      = (if tags d = [] then 1 else Max (order_index ` set (tags d)) + 1)"
  proof (cases "tags d = []")
    case True
    then show ?thesis by (simp add: or_zero_def)
  next
    case False
    then have "sql_max (map order_index (tags d)) = Some (Max (order_index ` set (tags d)))"
      using sql_max_eq_Max [of "map order_index (tags d)"] by simp
    with False show ?thesis by (simp add: or_zero_def)
  qed
  have spec1: "(if tags d = [] then 1 else Max (order_index ` set (tags d)) + 1)
      = spec_order_index (tags d)"
    if "tags d \<noteq> []" "0 \<le> Max (order_index ` set (tags d))"
  proof -
    have "Max (insert 0 (order_index ` set (tags d))) = max 0 (Max (order_index ` set (tags d)))"
      using that(1) by (simp add: Max_insert)
    with that show ?thesis
      by (simp add: spec_order_index_def fold_max_eq)
  qed
  have spec2: "(if tags d = [] then 1 else Max (order_index ` set (tags d)) + 1)
      = spec_order_index (tags d)" if "tags d = []"
    using that by (simp add: spec_order_index_def)
  show ?thesis
    unfolding Let_def case_prod_unfold
    using fresh oi spec1 spec2 by (simp add: add_tag_def Let_def)
qed

theorem add_tag_default_order_witness:
  "''Later'' \<notin> name ` set (tags negative_order_db)
   \<and> ''Travel'' \<notin> name ` set (tags example_db)
   \<and> map order_index
        (tags (snd (add_tag negative_order_db ''2024-05-02 00:00:00'' ''Later'' ''#000000'' None)))
      = [- 5, - 4]
   \<and> map order_index
        (tags (snd (add_tag example_db ''2024-05-02 00:00:00'' ''Travel'' ''#000000'' None)))
      = [1, 2, 3]
   \<and> map order_index
        (tags (snd (add_tag empty_db ''2024-05-02 00:00:00'' ''Travel'' ''#000000'' None)))
      = [1]"
proof -
  have h1: "''Later'' \<notin> name ` set (tags negative_order_db)"
    by (simp add: negative_order_db_def empty_db_def add_tag_def Let_def)
  have h2: "''Travel'' \<notin> name ` set (tags example_db)"
    by (simp add: example_db_def)
  have h3: "''Travel'' \<notin> name ` set (tags empty_db)"
    by (simp add: empty_db_def)
  have t1: "tags negative_order_db =
      [\<lparr>tag_id = 1, name = ''Archive'', color = ''#cccccc'', order_index = - 5,
        tag_created_at = Some ''2024-05-01 00:00:00''\<rparr>]"
    by (simp add: negative_order_db_def empty_db_def add_tag_def Let_def next_rowid_def)
  from add_tag_default_order [OF h1, of "''2024-05-02 00:00:00''" "''#000000''",
      unfolded Let_def case_prod_unfold]
  have c1: "map order_index
        (tags (snd (add_tag negative_order_db ''2024-05-02 00:00:00'' ''Later'' ''#000000'' None)))
      = [- 5, - 4]"
    by (simp add: t1)
  from add_tag_default_order [OF h2, of "''2024-05-02 00:00:00''" "''#000000''",
      unfolded Let_def case_prod_unfold]
  have c2: "map order_index
        (tags (snd (add_tag example_db ''2024-05-02 00:00:00'' ''Travel'' ''#000000'' None)))
      = [1, 2, 3]"
    by (simp add: example_db_def)
  from add_tag_default_order [OF h3, of "''2024-05-02 00:00:00''" "''#000000''",
      unfolded Let_def case_prod_unfold]
  have c3: "map order_index
        (tags (snd (add_tag empty_db ''2024-05-02 00:00:00'' ''Travel'' ''#000000'' None)))
      = [1]"
    by (simp add: empty_db_def)
  from h1 h2 c1 c2 c3 show ?thesis by blast
qed

section \<open>Bulk importer: properties\<close>

lemma truthy_get_iff: "truthy (dict_get ev k PyNone) \<longleftrightarrow> has_datetime ev k"
  by (cases "ev k"; cases "the (ev k)") (auto simp: dict_get_def has_datetime_def)

lemma has_datetime_text:
  "has_datetime ev k \<Longrightarrow> sql_text (dict_get ev k PyNone) = Some (py_str (dict_get ev k PyNone))"
  by (cases "ev k"; cases "the (ev k)") (auto simp: dict_get_def has_datetime_def)

lemma title_text:
  "ev ''title'' \<noteq> Some PyNone \<Longrightarrow>
   sql_text (dict_get ev ''title'' (PyStr ''(no title)''))
     = Some (py_str (dict_get ev ''title'' (PyStr ''(no title)'')))"
  by (cases "ev ''title''"; cases "the (ev ''title'')") (auto simp: dict_get_def)

lemma bulk_loop_rows:
  "\<forall>ev \<in> set evs. ev ''title'' \<noteq> Some PyNone \<Longrightarrow>
   \<exists>rows seq.
     bulk_loop d now tag_v evs n
       = Inr (n + int (length (filter has_both_datetimes evs)),
              d\<lparr>events := events d @ rows, events_seq := seq\<rparr>)
     \<and> map event_columns rows = map (record_columns tag_v) (filter has_both_datetimes evs)
     \<and> (\<forall>r \<in> set rows. created_at r = Some now)
     \<and> (rows = [] \<longrightarrow> seq = events_seq d)"
proof (induction evs arbitrary: d n)
  case Nil
  have "bulk_loop d now tag_v [] n = Inr (n, d\<lparr>events := events d @ [], events_seq := events_seq d\<rparr>)"
    by simp
  then show ?case by (intro exI [of _ "[]"] exI [of _ "events_seq d"]) simp
next
  case (Cons ev evs)
  then have titles: "\<forall>ev \<in> set evs. ev ''title'' \<noteq> Some PyNone" and title: "ev ''title'' \<noteq> Some PyNone"
    by simp_all
  show ?case
  proof (cases "has_both_datetimes ev")
    case False
    then have nb: "\<not> (truthy (dict_get ev ''start_datetime'' PyNone)
        \<and> truthy (dict_get ev ''end_datetime'' PyNone))"
      by (simp add: truthy_get_iff has_both_datetimes_def)
    have step: "bulk_loop d now tag_v (ev # evs) n = bulk_loop d now tag_v evs n"
      using nb by (auto simp: Let_def)
    have flt: "filter has_both_datetimes (ev # evs) = filter has_both_datetimes evs"
      using False by simp
    from Cons.IH [OF titles, of d n] show ?thesis
      unfolding step flt .
  next
    case True
    define new_id where "new_id = next_rowid (map event_id (events d)) (events_seq d)"
    define row where "row =
      \<lparr>event_id = new_id,
       start_datetime = py_str (dict_get ev ''start_datetime'' PyNone),
       end_datetime = py_str (dict_get ev ''end_datetime'' PyNone),
       title = py_str (dict_get ev ''title'' (PyStr ''(no title)'')),
       description = sql_text (dict_get ev ''description'' (PyStr [])),
       tag = sql_text tag_v, created_at = Some now\<rparr>"
    define d1 where "d1 = d\<lparr>events := events d @ [row], events_seq := new_id\<rparr>"
    from True have s: "has_datetime ev ''start_datetime''" and e: "has_datetime ev ''end_datetime''"
      by (simp_all add: has_both_datetimes_def)
    note tt = title_text [of ev, OF title]
    have ins: "insert_event d now (dict_get ev ''start_datetime'' PyNone)
        (dict_get ev ''end_datetime'' PyNone) (dict_get ev ''title'' (PyStr ''(no title)''))
        (dict_get ev ''description'' (PyStr [])) tag_v = Inr (new_id, d1)"
      by (simp add: insert_event_def has_datetime_text [OF s] has_datetime_text [OF e]
          tt Let_def new_id_def row_def d1_def)
    from Cons.IH [OF titles, of d1 "n + 1"] obtain rows seq where
      loop: "bulk_loop d1 now tag_v evs (n + 1)
       = Inr (n + 1 + int (length (filter has_both_datetimes evs)),
              d1\<lparr>events := events d1 @ rows, events_seq := seq\<rparr>)"
      and cols: "map event_columns rows = map (record_columns tag_v) (filter has_both_datetimes evs)"
      and crt: "\<forall>r \<in> set rows. created_at r = Some now"
      by blast
    have st: "d1\<lparr>events := events d1 @ rows, events_seq := seq\<rparr>
        = d\<lparr>events := events d @ (row # rows), events_seq := seq\<rparr>"
      by (simp add: d1_def)
    have rc: "event_columns row = record_columns tag_v ev"
      by (simp add: event_columns_def record_columns_def row_def)
    have tb: "truthy (dict_get ev ''start_datetime'' PyNone)
        \<and> truthy (dict_get ev ''end_datetime'' PyNone)"
      using s e by (simp add: truthy_get_iff)
    have step: "bulk_loop d now tag_v (ev # evs) n = bulk_loop d1 now tag_v evs (n + 1)"
      using tb ins by (simp add: Let_def)
    have flt: "filter has_both_datetimes (ev # evs) = ev # filter has_both_datetimes evs"
      using True by simp
    have "bulk_loop d now tag_v (ev # evs) n
       = Inr (n + int (length (filter has_both_datetimes (ev # evs))),
              d\<lparr>events := events d @ (row # rows), events_seq := seq\<rparr>)"
      unfolding step flt loop st by simp
    moreover have "map event_columns (row # rows)
        = map (record_columns tag_v) (filter has_both_datetimes (ev # evs))"
      unfolding flt using cols rc by simp
    moreover have "\<forall>r \<in> set (row # rows). created_at r = Some now"
      using crt by (simp add: row_def)
    ultimately show ?thesis
      by (intro exI [of _ "row # rows"] exI [of _ seq]) simp
  qed
qed

lemma import_valid:
  "filter has_both_datetimes import_records
     = [import_records ! 0, import_records ! 2, import_records ! 3]"
  by (simp add: import_records_def has_both_datetimes_def has_datetime_def)

text \<open>
  C9. \<open>bulk_add_events\<close> appends one row per input record that has both datetimes (a
  non-empty text under \<open>start_datetime\<close> and under \<open>end_datetime\<close>), in the order of the
  input and with the record's columns, and returns their number; every other record is
  skipped without an error. The titles are texts where they are given. Three such
  records and one without \<open>end_datetime\<close> give three rows and the result 3.
\<close>

theorem bulk_add_events_counts_valid_records:
  "\<forall>ev \<in> set evs. ev ''title'' \<noteq> Some PyNone \<Longrightarrow>
   \<exists>rows seq.
     bulk_add_events d now evs tag_arg
       = (Inr (int (length (filter has_both_datetimes evs))),
          d\<lparr>events := events d @ rows, events_seq := seq\<rparr>)
     \<and> length rows = length (filter has_both_datetimes evs)
     \<and> map event_columns rows
         = map (record_columns (arg_or tag_arg (PyStr []))) (filter has_both_datetimes evs)"
proof -
  assume titles: "\<forall>ev \<in> set evs. ev ''title'' \<noteq> Some PyNone"
  show ?thesis
  proof (cases "evs = []")
    case True
    have "d = d\<lparr>events := events d @ [], events_seq := events_seq d\<rparr>" by simp
    with True show ?thesis
      by (intro exI [of _ "[]"] exI [of _ "events_seq d"]) (simp add: bulk_add_events_def)
  next
    case False
    from bulk_loop_rows [OF titles, of d now "arg_or tag_arg (PyStr [])" 0]
    obtain rows seq where
      loop: "bulk_loop d now (arg_or tag_arg (PyStr [])) evs 0
       = Inr (0 + int (length (filter has_both_datetimes evs)),
              d\<lparr>events := events d @ rows, events_seq := seq\<rparr>)"
      and cols: "map event_columns rows
         = map (record_columns (arg_or tag_arg (PyStr []))) (filter has_both_datetimes evs)"
      by blast
    from cols have "length (map event_columns rows)
        = length (map (record_columns (arg_or tag_arg (PyStr []))) (filter has_both_datetimes evs))"
      by simp
    then have len: "length rows = length (filter has_both_datetimes evs)" by simp
    from False loop cols len show ?thesis
      by (intro exI [of _ rows] exI [of _ seq]) (simp add: bulk_add_events_def)
  qed
qed

theorem bulk_add_events_counts_valid_records_witness:
  "list_all (\<lambda>ev. ev ''title'' \<noteq> Some PyNone) import_records
   \<and> length import_records = 4
   \<and> fst (bulk_add_events example_db ''2024-06-01 08:00:00'' import_records Omitted) = Inr 3
   \<and> length (events (snd (bulk_add_events example_db ''2024-06-01 08:00:00'' import_records Omitted)))
       = length (events example_db) + 3"
proof -
  have h: "\<forall>ev \<in> set import_records. ev ''title'' \<noteq> Some PyNone"
    by (simp add: import_records_def)
  from bulk_add_events_counts_valid_records [OF h, of example_db "''2024-06-01 08:00:00''" Omitted]
  obtain rows seq where
    r: "bulk_add_events example_db ''2024-06-01 08:00:00'' import_records Omitted
       = (Inr (int (length (filter has_both_datetimes import_records))),
          example_db\<lparr>events := events example_db @ rows, events_seq := seq\<rparr>)"
    and l: "length rows = length (filter has_both_datetimes import_records)"
    by blast
  have n: "length (filter has_both_datetimes import_records) = 3"
    by (simp add: import_valid)
  have "length import_records = 4" by (simp add: import_records_def)
  with h r l n show ?thesis by (simp add: list_all_iff)
qed

section \<open>The text format: round trip and order\<close>

lemma length_zero_pad [simp]: "length (zero_pad k n) = k"
  by (induction k arbitrary: n) auto

lemma zero_pad_2: "zero_pad 2 n = [digit_char (n div 10 mod 10), digit_char (n mod 10)]"
  by (simp add: eval_nat_numeral)

lemma zero_pad_4:
  "zero_pad 4 n =
     [digit_char (n div 10 div 10 div 10 mod 10), digit_char (n div 10 div 10 mod 10),
      digit_char (n div 10 mod 10), digit_char (n mod 10)]"
  by (simp add: eval_nat_numeral)

lemma digit_cases: "0 \<le> n \<Longrightarrow> n \<le> 9 \<Longrightarrow> n \<in> {0, 1, 2, 3, 4, 5, 6, 7, 8, 9 :: int}"
  by (simp add: insert_iff) arith

lemma digit_char_code: "0 \<le> n \<Longrightarrow> n \<le> 9 \<Longrightarrow> (of_char (digit_char n) :: int) = 48 + n"
  using digit_cases [of n] by (auto simp: digit_char_def)

lemma digit_val_digit_char: "0 \<le> n \<Longrightarrow> n \<le> 9 \<Longrightarrow> digit_val (digit_char n) = Some n"
  using digit_cases [of n] by (auto simp: digit_char_def digit_val_def)

lemma digit_char_less:
  "0 \<le> i \<Longrightarrow> i \<le> 9 \<Longrightarrow> 0 \<le> j \<Longrightarrow> j \<le> 9 \<Longrightarrow> digit_char i < digit_char j \<longleftrightarrow> i < j"
proof -
  assume a: "0 \<le> i" "i \<le> 9" "0 \<le> j" "j \<le> 9"
  have "digit_char i < digit_char j \<longleftrightarrow> (of_char (digit_char i) :: nat) < of_char (digit_char j)"
    by (simp add: less_char_def)
  also have "\<dots> \<longleftrightarrow> (int (of_char (digit_char i)) < int (of_char (digit_char j)))"
    by simp
  also have "\<dots> \<longleftrightarrow> (of_char (digit_char i) :: int) < of_char (digit_char j)"
    by (simp add: of_char_def)
  also have "\<dots> \<longleftrightarrow> i < j"
    using a by (simp add: digit_char_code)
  finally show ?thesis .
qed

lemma digit_char_inj:
  assumes "0 \<le> i" "i \<le> 9" "0 \<le> j" "j \<le> 9"
  shows "digit_char i = digit_char j \<longleftrightarrow> i = j"
proof
  assume "digit_char i = digit_char j"
  then have "digit_val (digit_char i) = digit_val (digit_char j)" by (rule arg_cong)
  then have "Some i = Some j"
    by (simp only: digit_val_digit_char [OF assms(1,2)] digit_val_digit_char [OF assms(3,4)])
  then show "i = j" by simp
next
  assume "i = j"
  then show "digit_char i = digit_char j" by (rule arg_cong)
qed

lemma parse_digits_append:
  "parse_digits acc (xs @ ys) =
     (case parse_digits acc xs of None \<Rightarrow> None | Some a \<Rightarrow> parse_digits a ys)"
  by (induction xs arbitrary: acc) (auto split: option.splits)

lemma parse_digits_zero_pad:
  "0 \<le> n \<Longrightarrow> n < 10 ^ k \<Longrightarrow> parse_digits acc (zero_pad k n) = Some (acc * 10 ^ k + n)"
proof (induction k arbitrary: n)
  case 0
  then show ?case by simp
next
  case (Suc k)
  have d: "0 \<le> n div 10" "n div 10 < 10 ^ k" using Suc.prems by auto
  have m: "0 \<le> n mod 10" "n mod 10 \<le> 9" by auto
  show ?case
    by (simp add: parse_digits_append Suc.IH [OF d] digit_val_digit_char [OF m] algebra_simps)
qed

lemma append_less_same_length:
  fixes u v :: "'a::linorder list"
  shows "length u = length v \<Longrightarrow> u @ x < v @ y \<longleftrightarrow> u < v \<or> (u = v \<and> x < y)"
  by (induction u v rule: list_induct2) auto

lemma append_le_same_length:
  fixes u v :: "'a::linorder list"
  shows "length u = length v \<Longrightarrow> u @ x \<le> v @ y \<longleftrightarrow> u < v \<or> (u = v \<and> x \<le> y)"
  by (induction u v rule: list_induct2) auto

lemma zero_pad_inj:
  assumes "0 \<le> a" "a < 10 ^ k" "0 \<le> b" "b < 10 ^ k"
  shows "zero_pad k a = zero_pad k b \<longleftrightarrow> a = b"
proof
  assume "zero_pad k a = zero_pad k b"
  then have "parse_digits 0 (zero_pad k a) = parse_digits 0 (zero_pad k b)" by (rule arg_cong)
  then have "Some (0 * 10 ^ k + a) = Some (0 * 10 ^ k + b)"
    by (simp only: parse_digits_zero_pad [OF assms(1,2)] parse_digits_zero_pad [OF assms(3,4)])
  then show "a = b" by simp
next
  assume "a = b"
  then show "zero_pad k a = zero_pad k b" by (rule arg_cong)
qed

lemma div_mod_lex:
  "(a div 10 < b div 10 \<or> (a div 10 = b div 10 \<and> a mod 10 < b mod 10)) \<longleftrightarrow> a < (b::int)"
proof -
  define qa ra qb rb where "qa = a div 10" and "ra = a mod 10" and "qb = b div 10" and "rb = b mod 10"
  have a: "a = 10 * qa + ra" and b: "b = 10 * qb + rb"
    by (simp_all add: qa_def ra_def qb_def rb_def)
  have r: "0 \<le> ra" "ra < 10" "0 \<le> rb" "rb < 10"
    by (simp_all add: ra_def rb_def)
  have "(qa < qb \<or> (qa = qb \<and> ra < rb)) \<longleftrightarrow> 10 * qa + ra < 10 * qb + rb"
    using r by arith
  then have "(qa < qb \<or> (qa = qb \<and> ra < rb)) \<longleftrightarrow> a < b"
    by (simp only: a [symmetric] b [symmetric])
  then show ?thesis
    by (simp only: qa_def ra_def qb_def rb_def)
qed

lemma zero_pad_less:
  "0 \<le> a \<Longrightarrow> a < 10 ^ k \<Longrightarrow> 0 \<le> b \<Longrightarrow> b < 10 ^ k \<Longrightarrow> zero_pad k a < zero_pad k b \<longleftrightarrow> a < b"
proof (induction k arbitrary: a b)
  case 0
  then show ?case by simp
next
  case (Suc k)
  have da: "0 \<le> a div 10" "a div 10 < 10 ^ k" and db: "0 \<le> b div 10" "b div 10 < 10 ^ k"
    using Suc.prems by auto
  have "zero_pad (Suc k) a < zero_pad (Suc k) b \<longleftrightarrow>
      zero_pad k (a div 10) < zero_pad k (b div 10)
      \<or> (zero_pad k (a div 10) = zero_pad k (b div 10)
          \<and> [digit_char (a mod 10)] < [digit_char (b mod 10)])"
    by (simp add: append_less_same_length)
  also have "\<dots> \<longleftrightarrow> a div 10 < b div 10 \<or> (a div 10 = b div 10 \<and> a mod 10 < b mod 10)"
    by (simp add: Suc.IH [OF da db] zero_pad_inj [OF da db] digit_char_less)
  also have "\<dots> \<longleftrightarrow> a < b"
    by (rule div_mod_lex)
  finally show ?case .
qed

lemma Pair_less_lex:
  fixes a c :: "'a::linorder"
  shows "(a, b) < (c, d) \<longleftrightarrow> a < c \<or> (a = c \<and> b < d)"
  by (auto simp: less_prod_def)

lemma Pair_le_lex:
  fixes a c :: "'a::linorder"
  shows "(a, b) \<le> (c, d) \<longleftrightarrow> a < c \<or> (a = c \<and> b \<le> d)"
  by (auto simp: less_eq_prod_def)

lemma days_in_month_bounds: "28 \<le> days_in_month y m" "days_in_month y m \<le> 31"
  by (simp_all add: days_in_month_def)

lemma length_strftime_date [simp]: "length (strftime_date D) = 10"
  by (cases D) simp

lemma length_strftime_time [simp]: "length (strftime_time T) = 8"
  by (cases T) simp

lemma strptime_date_strftime: "valid_date D \<Longrightarrow> strptime_date (strftime_date D) = Inr D"
proof -
  assume v: "valid_date D"
  obtain y m d where D: "D = (y, m, d)" by (cases D)
  from v D days_in_month_bounds(2) [of y m]
  have b: "0 \<le> y" "y < 10 ^ 4" "0 \<le> m" "m < 10 ^ 2" "0 \<le> d" "d < 10 ^ 2"
    by auto
  have py: "parse_digits 0 (zero_pad 4 y) = Some y"
    and pm: "parse_digits 0 (zero_pad 2 m) = Some m"
    and pd: "parse_digits 0 (zero_pad 2 d) = Some d"
    using parse_digits_zero_pad [OF b(1,2), of 0] parse_digits_zero_pad [OF b(3,4), of 0]
      parse_digits_zero_pad [OF b(5,6), of 0] by simp_all
  have "strptime_date (zero_pad 4 y @ ''-'' @ zero_pad 2 m @ ''-'' @ zero_pad 2 d) = Inr (y, m, d)"
    unfolding strptime_date_def using v D
    by (simp add: nth_append py pm pd)
  then show ?thesis by (simp add: D)
qed

lemma strptime_time_strftime:
  "valid_time (h, mi, s, us) \<Longrightarrow> strptime_time (strftime_time (h, mi, s, us)) = Inr (h, mi, s, 0)"
proof -
  assume v: "valid_time (h, mi, s, us)"
  then have b: "0 \<le> h" "h < 10 ^ 2" "0 \<le> mi" "mi < 10 ^ 2" "0 \<le> s" "s < 10 ^ 2"
    by auto
  have ph: "parse_digits 0 (zero_pad 2 h) = Some h"
    and pm: "parse_digits 0 (zero_pad 2 mi) = Some mi"
    and ps: "parse_digits 0 (zero_pad 2 s) = Some s"
    using parse_digits_zero_pad [OF b(1,2), of 0] parse_digits_zero_pad [OF b(3,4), of 0]
      parse_digits_zero_pad [OF b(5,6), of 0] by simp_all
  show ?thesis
    unfolding strptime_time_def using v
    by (simp add: nth_append ph pm ps)
qed

lemma strptime_strftime:
  "valid_datetime (D, (h, mi, s, us)) \<Longrightarrow> strptime (strftime (D, (h, mi, s, us))) = Inr (D, (h, mi, s, 0))"
proof -
  assume v: "valid_datetime (D, (h, mi, s, us))"
  then have vd: "valid_date D" and vt: "valid_time (h, mi, s, us)" by simp_all
  have "strptime (strftime_date D @ '' '' @ strftime_time (h, mi, s, us)) = Inr (D, (h, mi, s, 0))"
    unfolding strptime_def
    by (simp add: nth_append strptime_date_strftime [OF vd] strptime_time_strftime [OF vt]
        del: strftime_time.simps)
  then show ?thesis by simp
qed

lemma strptime_strftime_stored: "stored_datetime dt \<Longrightarrow> strptime (strftime dt) = Inr dt"
proof -
  assume s: "stored_datetime dt"
  obtain D h mi sec us where dt: "dt = (D, (h, mi, sec, us))" by (cases dt) auto
  from s dt have "us = 0" and "valid_datetime (D, (h, mi, sec, us))"
    by (simp_all add: stored_datetime_def)
  with strptime_strftime [of D h mi sec us] dt show ?thesis by simp
qed

lemma strftime_date_inj:
  assumes "valid_date D" "valid_date E"
  shows "strftime_date D = strftime_date E \<longleftrightarrow> D = E"
proof
  assume "strftime_date D = strftime_date E"
  then have "strptime_date (strftime_date D) = strptime_date (strftime_date E)" by (rule arg_cong)
  then have "(Inr D :: error + date) = Inr E"
    by (simp only: strptime_date_strftime [OF assms(1)] strptime_date_strftime [OF assms(2)])
  then show "D = E" by simp
next
  assume "D = E"
  then show "strftime_date D = strftime_date E" by (rule arg_cong)
qed

lemma strftime_inj:
  assumes "stored_datetime a" "stored_datetime b"
  shows "strftime a = strftime b \<longleftrightarrow> a = b"
proof
  assume "strftime a = strftime b"
  then have "strptime (strftime a) = strptime (strftime b)" by (rule arg_cong)
  then have "(Inr a :: error + datetime) = Inr b"
    by (simp only: strptime_strftime_stored [OF assms(1)] strptime_strftime_stored [OF assms(2)])
  then show "a = b" by simp
next
  assume "a = b"
  then show "strftime a = strftime b" by (rule arg_cong)
qed

lemma strftime_date_less:
  assumes "valid_date D" "valid_date E"
  shows "strftime_date D < strftime_date E \<longleftrightarrow> D < E"
proof -
  obtain y m d where D: "D = (y, m, d)" by (cases D)
  obtain y' m' d' where E: "E = (y', m', d')" by (cases E)
  from assms D E days_in_month_bounds(2) [of y m] days_in_month_bounds(2) [of y' m']
  have b: "0 \<le> y" "y < 10 ^ 4" "0 \<le> m" "m < 10 ^ 2" "0 \<le> d" "d < 10 ^ 2"
    "0 \<le> y'" "y' < 10 ^ 4" "0 \<le> m'" "m' < 10 ^ 2" "0 \<le> d'" "d' < 10 ^ 2"
    by auto
  have "strftime_date D < strftime_date E \<longleftrightarrow>
      zero_pad 4 y < zero_pad 4 y'
      \<or> (zero_pad 4 y = zero_pad 4 y'
          \<and> (zero_pad 2 m < zero_pad 2 m'
              \<or> (zero_pad 2 m = zero_pad 2 m' \<and> zero_pad 2 d < zero_pad 2 d')))"
    by (simp add: D E append_less_same_length)
  also have "\<dots> \<longleftrightarrow> y < y' \<or> (y = y' \<and> (m < m' \<or> (m = m' \<and> d < d')))"
    by (simp only: zero_pad_less [OF b(1,2) b(7,8)] zero_pad_inj [OF b(1,2) b(7,8)]
        zero_pad_less [OF b(3,4) b(9,10)] zero_pad_inj [OF b(3,4) b(9,10)]
        zero_pad_less [OF b(5,6) b(11,12)])
  also have "\<dots> \<longleftrightarrow> D < E"
    by (auto simp: D E less_prod_def)
  finally show ?thesis .
qed

lemma strftime_date_le:
  assumes "valid_date D" "valid_date E"
  shows "strftime_date D \<le> strftime_date E \<longleftrightarrow> D \<le> E"
  unfolding le_less [of "strftime_date D"] le_less [of D]
  by (simp only: strftime_date_less [OF assms] strftime_date_inj [OF assms])

lemma strftime_time_less:
  assumes "valid_time (h, mi, s, us)" "valid_time (h', mi', s', us')"
  shows "strftime_time (h, mi, s, us) < strftime_time (h', mi', s', us') \<longleftrightarrow>
      (h, mi, s) < (h', mi', s')"
proof -
  from assms
  have b: "0 \<le> h" "h < 10 ^ 2" "0 \<le> mi" "mi < 10 ^ 2" "0 \<le> s" "s < 10 ^ 2"
    "0 \<le> h'" "h' < 10 ^ 2" "0 \<le> mi'" "mi' < 10 ^ 2" "0 \<le> s'" "s' < 10 ^ 2"
    by auto
  have "strftime_time (h, mi, s, us) < strftime_time (h', mi', s', us') \<longleftrightarrow>
      zero_pad 2 h < zero_pad 2 h'
      \<or> (zero_pad 2 h = zero_pad 2 h'
          \<and> (zero_pad 2 mi < zero_pad 2 mi'
              \<or> (zero_pad 2 mi = zero_pad 2 mi' \<and> zero_pad 2 s < zero_pad 2 s')))"
    by (simp add: append_less_same_length)
  also have "\<dots> \<longleftrightarrow> h < h' \<or> (h = h' \<and> (mi < mi' \<or> (mi = mi' \<and> s < s')))"
    by (simp only: zero_pad_less [OF b(1,2) b(7,8)] zero_pad_inj [OF b(1,2) b(7,8)]
        zero_pad_less [OF b(3,4) b(9,10)] zero_pad_inj [OF b(3,4) b(9,10)]
        zero_pad_less [OF b(5,6) b(11,12)])
  also have "\<dots> \<longleftrightarrow> (h, mi, s) < (h', mi', s')"
    by (auto simp: less_prod_def)
  finally show ?thesis .
qed

lemma strftime_less:
  assumes "stored_datetime a" "stored_datetime b"
  shows "strftime a < strftime b \<longleftrightarrow> a < b"
proof -
  obtain D h mi s us where a: "a = (D, (h, mi, s, us))" by (cases a) auto
  obtain E h' mi' s' us' where b: "b = (E, (h', mi', s', us'))" by (cases b) auto
  from assms a b have v: "valid_date D" "valid_date E"
    "valid_time (h, mi, s, us)" "valid_time (h', mi', s', us')" and u: "us = 0" "us' = 0"
    by (simp_all add: stored_datetime_def)
  have "strftime a < strftime b \<longleftrightarrow>
      strftime_date D < strftime_date E
      \<or> (strftime_date D = strftime_date E
          \<and> strftime_time (h, mi, s, us) < strftime_time (h', mi', s', us'))"
    by (simp add: a b append_less_same_length del: strftime_date.simps strftime_time.simps)
  also have "\<dots> \<longleftrightarrow> D < E \<or> (D = E \<and> (h, mi, s) < (h', mi', s'))"
    by (simp only: strftime_date_less [OF v(1,2)] strftime_date_inj [OF v(1,2)]
        strftime_time_less [OF v(3,4)])
  also have "\<dots> \<longleftrightarrow> D < E \<or> (D = E \<and> (h, mi, s, us) < (h', mi', s', us'))"
    using u by (auto simp: less_prod_def)
  also have "\<dots> \<longleftrightarrow> a < b"
    unfolding a b by (rule Pair_less_lex [symmetric])
  finally show ?thesis .
qed

lemma strftime_le:
  assumes "stored_datetime a" "stored_datetime b"
  shows "strftime a \<le> strftime b \<longleftrightarrow> a \<le> b"
  unfolding le_less [of "strftime a"] le_less [of a]
  by (simp only: strftime_less [OF assms] strftime_inj [OF assms])

lemma strftime_less_date:
  assumes "valid_date D" "valid_date E"
  shows "strftime (D, T) < strftime_date E \<longleftrightarrow> D < E"
proof -
  have "strftime (D, T) < strftime_date E
      \<longleftrightarrow> strftime_date D @ ('' '' @ strftime_time T) < strftime_date E @ []"
    by simp
  also have "\<dots> \<longleftrightarrow> strftime_date D < strftime_date E"
    by (subst append_less_same_length) simp_all
  finally show ?thesis by (simp only: strftime_date_less [OF assms])
qed

lemma date_less_strftime:
  assumes "valid_date S" "valid_date D"
  shows "strftime_date S < strftime (D, T) \<longleftrightarrow> S \<le> D"
proof -
  have "strftime_date S < strftime (D, T)
      \<longleftrightarrow> strftime_date S @ [] < strftime_date D @ ('' '' @ strftime_time T)"
    by simp
  also have "\<dots> \<longleftrightarrow> strftime_date S < strftime_date D \<or> strftime_date S = strftime_date D"
    by (subst append_less_same_length) simp_all
  finally show ?thesis
    by (simp only: strftime_date_less [OF assms] strftime_date_inj [OF assms] le_less)
qed

section \<open>Events of a day: properties\<close>

lemma strftime_day_start: "strftime_date D @ '' 00:00:00'' = strftime (D, (0, 0, 0, 0))"
  by (simp add: zero_pad_2 digit_char_def)

lemma strftime_day_end: "strftime_date D @ '' 23:59:59'' = strftime (D, (23, 59, 59, 0))"
  by (simp add: zero_pad_2 digit_char_def)

lemma stored_day_start: "valid_date D \<Longrightarrow> stored_datetime (D, (0, 0, 0, 0))"
  by (simp add: stored_datetime_def)

lemma stored_day_end: "valid_date D \<Longrightarrow> stored_datetime (D, (23, 59, 59, 0))"
  by (simp add: stored_datetime_def)

lemma stored_le_day_end:
  "stored_datetime s \<Longrightarrow> s \<le> (D, (23, 59, 59, 0)) \<longleftrightarrow> fst s \<le> D"
proof -
  assume st: "stored_datetime s"
  obtain S h mi sec us where s: "s = (S, (h, mi, sec, us))" by (cases s) auto
  from st s have "(h, mi, sec, us) \<le> (23, 59, 59, 0)"
    by (auto simp: stored_datetime_def less_eq_prod_def)
  then show ?thesis
    unfolding s Pair_le_lex by auto
qed

lemma day_start_le_stored:
  "stored_datetime t \<Longrightarrow> (D, (0, 0, 0, 0)) \<le> t \<longleftrightarrow> D \<le> fst t"
proof -
  assume st: "stored_datetime t"
  obtain T h mi sec us where t: "t = (T, (h, mi, sec, us))" by (cases t) auto
  from st t have "(0, 0, 0, 0) \<le> (h, mi, sec, us)"
    by (auto simp: stored_datetime_def less_eq_prod_def)
  then show ?thesis
    unfolding t Pair_le_lex by auto
qed

lemma sql_DATE_strftime: "stored_datetime s \<Longrightarrow> sql_DATE (strftime s) = Some (strftime_date (fst s))"
  by (cases s) (simp add: sql_DATE_def strptime_strftime_stored del: strftime.simps)

lemma stored_valid_date: "stored_datetime s \<Longrightarrow> valid_date (fst s)"
  by (cases s) (simp add: stored_datetime_def)

lemma fst_mono_datetime: "(s :: datetime) \<le> t \<Longrightarrow> fst s \<le> fst t"
  by (cases s; cases t) (auto simp: Pair_le_lex)

lemma touches_iff:
  assumes "stored_datetime s" "stored_datetime t" "s \<le> t" "valid_date D"
  shows "(\<exists>x. valid_datetime x \<and> s \<le> x \<and> x \<le> t \<and> fst x = D) \<longleftrightarrow> fst s \<le> D \<and> D \<le> fst t"
proof
  assume "\<exists>x. valid_datetime x \<and> s \<le> x \<and> x \<le> t \<and> fst x = D"
  then obtain x where "s \<le> x" "x \<le> t" "fst x = D" by blast
  then show "fst s \<le> D \<and> D \<le> fst t"
    using fst_mono_datetime [of s x] fst_mono_datetime [of x t] by simp
next
  assume b: "fst s \<le> D \<and> D \<le> fst t"
  have vs: "valid_datetime s" and vt: "valid_datetime t"
    using assms(1,2) by (simp_all add: stored_datetime_def)
  show "\<exists>x. valid_datetime x \<and> s \<le> x \<and> x \<le> t \<and> fst x = D"
  proof (cases "fst s = D")
    case True
    with vs assms(3) show ?thesis by (intro exI [of _ s]) simp
  next
    case False
    note sD = this
    show ?thesis
    proof (cases "fst t = D")
      case True
      with vt assms(3) show ?thesis by (intro exI [of _ t]) simp
    next
      case False
      with sD b have lt: "fst s < D" "D < fst t" by auto
      obtain S ts where s: "s = (S, ts)" by (cases s)
      obtain T tt where t: "t = (T, tt)" by (cases t)
      have "s \<le> (D, (0, 0, 0, 0))" "(D, (0, 0, 0, 0)) \<le> t"
        using lt unfolding s t Pair_le_lex by simp_all
      with assms(4) show ?thesis
        by (intro exI [of _ "(D, (0, 0, 0, 0))"]) simp
    qed
  qed
qed

lemma day_filter_iff:
  assumes "stored_datetime s" "stored_datetime t" "s \<le> t" "valid_date D"
  shows "((strftime s \<le> strftime_date D @ '' 23:59:59''
           \<and> strftime t \<ge> strftime_date D @ '' 00:00:00'')
          \<or> sql_DATE (strftime s) = Some (strftime_date D)
          \<or> sql_DATE (strftime t) = Some (strftime_date D))
         \<longleftrightarrow> fst s \<le> D \<and> D \<le> fst t"
proof -
  have c1: "strftime s \<le> strftime_date D @ '' 23:59:59'' \<longleftrightarrow> fst s \<le> D"
    by (simp only: strftime_day_end strftime_le [OF assms(1) stored_day_end [OF assms(4)]]
        stored_le_day_end [OF assms(1)])
  have c2: "strftime t \<ge> strftime_date D @ '' 00:00:00'' \<longleftrightarrow> D \<le> fst t"
    by (simp only: strftime_day_start strftime_le [OF stored_day_start [OF assms(4)] assms(2)]
        day_start_le_stored [OF assms(2)])
  have c3: "sql_DATE (strftime s) = Some (strftime_date D) \<longleftrightarrow> fst s = D"
    by (simp add: sql_DATE_strftime [OF assms(1)]
        strftime_date_inj [OF stored_valid_date [OF assms(1)] assms(4)])
  have c4: "sql_DATE (strftime t) = Some (strftime_date D) \<longleftrightarrow> fst t = D"
    by (simp add: sql_DATE_strftime [OF assms(2)]
        strftime_date_inj [OF stored_valid_date [OF assms(2)] assms(4)])
  from fst_mono_datetime [OF assms(3)] show ?thesis
    unfolding c1 c2 c3 c4 by auto
qed

lemma trip_db_events:
  "events trip_db =
     [\<lparr>event_id = 1, start_datetime = ''2024-06-01 22:00:00'',
       end_datetime = ''2024-06-03 08:00:00'', title = ''Trip'', description = Some [],
       tag = Some ''Personal'', created_at = Some ''2024-05-20 08:00:00''\<rparr>,
      \<lparr>event_id = 2, start_datetime = ''2024-05-31 09:00:00'',
       end_datetime = ''2024-05-31 10:00:00'', title = ''Packing'', description = Some [],
       tag = Some [], created_at = Some ''2024-05-20 08:05:00''\<rparr>]"
  by (simp add: trip_db_def empty_db_def add_event_def insert_event_def next_rowid_def)

lemmas text_eval = zero_pad_2 zero_pad_4 digit_char_def

text \<open>
  C4. An event in the table whose two datetimes are texts in the format of the store,
  with start before end, is among \<open>get_events_by_date(D)\<close> exactly when its interval
  from start to end, ends included, holds an instant of the calendar day \<open>D\<close>. The
  result is in ascending order of \<open>start_datetime\<close>.
\<close>

theorem get_events_by_date_touching:
  assumes "e \<in> set (events d)"
    and "start_datetime e = strftime s" and "end_datetime e = strftime t"
    and "stored_datetime s" and "stored_datetime t" and "s < t"
    and "valid_date D"
  shows "(e \<in> set (get_events_by_date d (strftime_date D))
            \<longleftrightarrow> (\<exists>x. valid_datetime x \<and> s \<le> x \<and> x \<le> t \<and> fst x = D))
         \<and> sorted (map start_datetime (get_events_by_date d (strftime_date D)))"
proof -
  have le: "s \<le> t" using assms(6) by simp
  have "e \<in> set (get_events_by_date d (strftime_date D)) \<longleftrightarrow> fst s \<le> D \<and> D \<le> fst t"
    using assms(1) day_filter_iff [OF assms(4,5) le assms(7)]
    by (simp add: get_events_by_date_def Let_def assms(2,3))
  moreover have "sorted (map start_datetime (get_events_by_date d (strftime_date D)))"
    by (simp add: get_events_by_date_def Let_def)
  ultimately show ?thesis
    by (simp only: touches_iff [OF assms(4,5) le assms(7)])
qed

theorem get_events_by_date_touching_witness:
  "hd (events trip_db) \<in> set (events trip_db)
   \<and> start_datetime (hd (events trip_db)) = strftime ((2024, 6, 1), (22, 0, 0, 0))
   \<and> end_datetime (hd (events trip_db)) = strftime ((2024, 6, 3), (8, 0, 0, 0))
   \<and> stored_datetime ((2024, 6, 1), (22, 0, 0, 0)) \<and> stored_datetime ((2024, 6, 3), (8, 0, 0, 0))
   \<and> ((2024, 6, 1), (22, 0, 0, 0)) < (((2024, 6, 3), (8, 0, 0, 0)) :: datetime)
   \<and> valid_date (2024, 6, 2) \<and> valid_date (2024, 6, 4)
   \<and> hd (events trip_db) \<in> set (get_events_by_date trip_db ''2024-06-02'')
   \<and> hd (events trip_db) \<notin> set (get_events_by_date trip_db ''2024-06-04'')
   \<and> map event_id (get_events_by_date trip_db ''2024-06-01'') = [1]
   \<and> map event_id (get_events_by_date trip_db ''2024-05-31'') = [2]"
proof -
  have h1: "hd (events trip_db) \<in> set (events trip_db)"
    by (simp add: trip_db_events)
  have h2: "start_datetime (hd (events trip_db)) = strftime ((2024, 6, 1), (22, 0, 0, 0))"
    and h3: "end_datetime (hd (events trip_db)) = strftime ((2024, 6, 3), (8, 0, 0, 0))"
    by (simp_all add: trip_db_events text_eval)
  have h4: "stored_datetime ((2024, 6, 1), (22, 0, 0, 0))"
    and h5: "stored_datetime ((2024, 6, 3), (8, 0, 0, 0))"
    by (simp_all add: stored_datetime_def days_in_month_def)
  have h6: "((2024, 6, 1), (22, 0, 0, 0)) < (((2024, 6, 3), (8, 0, 0, 0)) :: datetime)"
    by (simp add: less_prod_def)
  have h7: "valid_date (2024, 6, 2)" and h8: "valid_date (2024, 6, 4)"
    by (simp_all add: days_in_month_def)
  have f2: "strftime_date (2024, 6, 2) = ''2024-06-02''"
    and f4: "strftime_date (2024, 6, 4) = ''2024-06-04''"
    by (simp_all add: text_eval)
  have x2: "\<exists>x. valid_datetime x \<and> ((2024, 6, 1), (22, 0, 0, 0)) \<le> x
      \<and> x \<le> ((2024, 6, 3), (8, 0, 0, 0)) \<and> fst x = (2024, 6, 2)"
    by (intro exI [of _ "((2024, 6, 2), (0, 0, 0, 0))"])
      (simp add: days_in_month_def less_eq_prod_def)
  have x4: "\<not> (\<exists>x. valid_datetime x \<and> ((2024, 6, 1), (22, 0, 0, 0)) \<le> x
      \<and> x \<le> ((2024, 6, 3), (8, 0, 0, 0)) \<and> fst x = (2024, 6, 4))"
    by (auto simp: less_eq_prod_def)
  from get_events_by_date_touching [OF h1 h2 h3 h4 h5 h6 h7] x2
  have c2: "hd (events trip_db) \<in> set (get_events_by_date trip_db ''2024-06-02'')"
    unfolding f2 by blast
  from get_events_by_date_touching [OF h1 h2 h3 h4 h5 h6 h8] x4
  have c4: "hd (events trip_db) \<notin> set (get_events_by_date trip_db ''2024-06-04'')"
    unfolding f4 by blast
  have c1: "map event_id (get_events_by_date trip_db ''2024-06-01'') = [1]"
    and c0: "map event_id (get_events_by_date trip_db ''2024-05-31'') = [2]"
    by (simp_all add: get_events_by_date_def trip_db_events sql_DATE_def strptime_def
        strptime_date_def strptime_time_def digit_val_def days_in_month_def is_leap_def text_eval)
  from h1 h2 h3 h4 h5 h6 h7 h8 c2 c4 c1 c0 show ?thesis by blast
qed

section \<open>The calendar\<close>

lemma div_pred:
  fixes y k :: int
  assumes "0 < k"
  shows "(y - 1) div k = (if y mod k = 0 then y div k - 1 else y div k)"
proof (cases "y mod k = 0")
  case True
  have "y - 1 = k * (y div k - 1) + (k - 1)"
    using True mult_div_mod_eq [of k y] by (simp add: algebra_simps)
  then have "(y - 1) div k = y div k - 1"
    using assms by (intro int_div_pos_eq [where r = "k - 1"]) simp_all
  with True show ?thesis by simp
next
  case False
  have r: "0 \<le> y mod k" "y mod k < k" using assms by simp_all
  have "y - 1 = k * (y div k) + (y mod k - 1)"
    using mult_div_mod_eq [of k y] by (simp add: algebra_simps)
  then have "(y - 1) div k = y div k"
    using assms r False by (intro int_div_pos_eq [where r = "y mod k - 1"]) simp_all
  with False show ?thesis by simp
qed

lemma days_before_year_Suc:
  "days_before_year (y + 1) = days_before_year y + (if is_leap y then 366 else 365)"
proof -
  have d4: "(y - 1) div 4 = (if y mod 4 = 0 then y div 4 - 1 else y div 4)"
    and d100: "(y - 1) div 100 = (if y mod 100 = 0 then y div 100 - 1 else y div 100)"
    and d400: "(y - 1) div 400 = (if y mod 400 = 0 then y div 400 - 1 else y div 400)"
    by (rule div_pred, simp)+
  have m100: "y mod 100 = 0 \<Longrightarrow> y mod 4 = 0" and m400: "y mod 400 = 0 \<Longrightarrow> y mod 100 = 0"
    by (auto simp: mod_eq_0_iff_dvd elim: dvd_trans [rotated])
  show ?thesis
    unfolding days_before_year_def is_leap_def
    using m100 m400 by (auto simp: d4 d100 d400)
qed

lemma month_cases:
  "1 \<le> m \<Longrightarrow> m \<le> 12 \<Longrightarrow> m \<in> {1, 2, 3, 4, 5, 6, 7, 8, 9, 10, 11, 12 :: int}"
  by (simp add: insert_iff) arith

lemma days_before_month_Suc:
  "1 \<le> m \<Longrightarrow> m \<le> 11 \<Longrightarrow>
   days_before_month y (m + 1) = days_before_month y m + days_in_month y m"
  using month_cases [of m]
  by (auto simp: days_before_month_def days_in_month_def)

lemma days_before_month_12: "days_before_month y 12 = (if is_leap y then 335 else 334)"
  by (simp add: days_before_month_def)

lemma days_before_month_1: "days_before_month y 1 = 0"
  by (simp add: days_before_month_def)

lemma ymd2ord_next_day: "valid_date D \<Longrightarrow> ymd2ord (next_day D) = ymd2ord D + 1"
proof -
  assume v: "valid_date D"
  obtain y m d where D: "D = (y, m, d)" by (cases D)
  from v D have b: "1 \<le> m" "m \<le> 12" "1 \<le> d" "d \<le> days_in_month y m" by simp_all
  show ?thesis
  proof (cases "d < days_in_month y m")
    case True
    then show ?thesis by (simp add: D)
  next
    case False
    with b have d: "d = days_in_month y m" by simp
    show ?thesis
    proof (cases "m < 12")
      case True
      with b have "m \<le> 11" by simp
      from days_before_month_Suc [OF b(1) this, of y] True show ?thesis
        by (simp add: D d)
    next
      case False
      with b have m: "m = 12" by simp
      then have "days_in_month y m = 31" by (simp add: days_in_month_def)
      with m d show ?thesis
        by (simp add: D days_before_year_Suc days_before_month_12 days_before_month_1)
    qed
  qed
qed

lemma next_day_greater: "D < next_day D"
  by (cases D) (auto simp: less_prod_def)

lemma next_day_valid_le:
  assumes "valid_date D" "valid_date E" "D < E"
  shows "valid_date (next_day D) \<and> next_day D \<le> E"
proof -
  obtain y m d where D: "D = (y, m, d)" by (cases D)
  obtain y' m' d' where E: "E = (y', m', d')" by (cases E)
  from assms(1) D have vD: "1 \<le> y" "y \<le> 9999" "1 \<le> m" "m \<le> 12" "1 \<le> d" "d \<le> days_in_month y m"
    by simp_all
  from assms(2) E have vE: "1 \<le> y'" "y' \<le> 9999" "1 \<le> m'" "m' \<le> 12" "1 \<le> d'"
    "d' \<le> days_in_month y' m'"
    by simp_all
  from assms(3) have lt: "y < y' \<or> (y = y' \<and> (m < m' \<or> (m = m' \<and> d < d')))"
    by (auto simp: D E less_prod_def)
  note dim = days_in_month_bounds [of y m] days_in_month_bounds [of y' m']
    days_in_month_bounds [of y "m + 1"] days_in_month_bounds [of "y + 1" 1]
  show ?thesis
  proof (cases "d < days_in_month y m")
    case True
    then have n: "next_day D = (y, m, d + 1)" by (simp add: D)
    have "valid_date (y, m, d + 1)" using vD True by simp
    moreover have "(y, m, d + 1) \<le> (y', m', d')"
      using lt by (auto simp: less_eq_prod_def)
    ultimately show ?thesis by (simp only: n E)
  next
    case False
    with vD have d: "d = days_in_month y m" by simp
    show ?thesis
    proof (cases "m < 12")
      case True
      with False have n: "next_day D = (y, m + 1, 1)" by (simp add: D)
      have "valid_date (y, m + 1, 1)" using vD True dim by simp
      moreover have "(y, m + 1, 1) \<le> (y', m', d')"
        using lt vE d by (auto simp: less_eq_prod_def)
      ultimately show ?thesis by (simp only: n E)
    next
      case False
      with vD have m: "m = 12" by simp
      from False \<open>\<not> d < days_in_month y m\<close> have n: "next_day D = (y + 1, 1, 1)" by (simp add: D)
      from lt vE d m have yy: "y < y'" by auto
      have "valid_date (y + 1, 1, 1)" using vD vE yy dim by simp
      moreover have "(y + 1, 1, 1) \<le> (y', m', d')"
        using yy vE by (auto simp: less_eq_prod_def)
      ultimately show ?thesis by (simp only: n E)
    qed
  qed
qed

lemma next_day_valid:
  assumes "valid_date D" "D \<noteq> (9999, 12, 31)"
  shows "valid_date (next_day D)"
proof -
  obtain y m d where D: "D = (y, m, d)" by (cases D)
  from assms D days_in_month_bounds [of y m] days_in_month_bounds [of y "m + 1"]
    days_in_month_bounds [of "y + 1" 1]
  show ?thesis
    by (auto simp: days_in_month_def split: if_splits)
qed

lemma between_next_day:
  assumes "valid_date D" "valid_date X" "X \<noteq> D"
  shows "D \<le> X \<longleftrightarrow> next_day D \<le> X"
proof
  assume "D \<le> X"
  with assms have "D < X" by simp
  from next_day_valid_le [OF assms(1,2) this] show "next_day D \<le> X" by simp
next
  assume "next_day D \<le> X"
  with next_day_greater [of D] show "D \<le> X" by simp
qed

section \<open>Schema migration: properties\<close>

lemma start_text_strftime:
  "strftime_date D @ '' '' @ clock_text h mi @ '':00'' = strftime (D, (h, mi, 0, 0))"
  by (simp add: clock_text_def zero_pad_2 [of 0] digit_char_def)

lemma add_one_hour_ok:
  assumes "valid_date D" "0 \<le> h" "h \<le> 23" "0 \<le> mi" "mi \<le> 59" "(D, h) \<noteq> ((9999, 12, 31), 23)"
  shows "\<exists>end_dt. add_one_hour (D, (h, mi, 0, 0)) = Inr end_dt \<and> stored_datetime end_dt
           \<and> to_micro end_dt = to_micro (D, (h, mi, 0, 0)) + 3600 * 1000000"
proof (cases "h < 23")
  case True
  with assms show ?thesis
    by (intro exI [of _ "(D, (h + 1, mi, 0, 0))"]) (simp add: stored_datetime_def)
next
  case False
  with assms have h: "h = 23" and D: "D \<noteq> (9999, 12, 31)" by auto
  have v: "valid_date (next_day D)" by (rule next_day_valid [OF assms(1) D])
  have "add_one_hour (D, (h, mi, 0, 0)) = Inr (next_day D, (0, mi, 0, 0))"
    using h D by simp
  moreover have "stored_datetime (next_day D, (0, mi, 0, 0))"
    using v assms by (simp add: stored_datetime_def)
  moreover have "to_micro (next_day D, (0, mi, 0, 0)) = to_micro (D, (h, mi, 0, 0)) + 3600 * 1000000"
    by (simp add: ymd2ord_next_day [OF assms(1)] h)
  ultimately show ?thesis by blast
qed

lemma migrate_times_ok:
  assumes "legacy_row_ok r"
  shows "\<exists>st en. migrate_times (legacy_date r) (legacy_time r) = Inr (st, en)
     \<and> (if truthy (legacy_time r)
         then st = py_str (legacy_date r) @ '' '' @ py_str (legacy_time r) @ '':00''
              \<and> hour_later st en
         else st = py_str (legacy_date r) @ '' 09:00:00''
              \<and> en = py_str (legacy_date r) @ '' 17:00:00'')"
proof (cases "truthy (legacy_time r)")
  case False
  then show ?thesis by (simp add: migrate_times_def)
next
  case True
  with assms obtain D h mi where D: "valid_date D" "legacy_date r = PyStr (strftime_date D)"
    and t: "0 \<le> h" "h \<le> 23" "0 \<le> mi" "mi \<le> 59" "legacy_time r = PyStr (clock_text h mi)"
      "(D, h) \<noteq> ((9999, 12, 31), 23)"
    unfolding legacy_row_ok_def by blast
  define st where "st = strftime (D, (h, mi, 0, 0))"
  have st_eq: "py_str (legacy_date r) @ '' '' @ py_str (legacy_time r) @ '':00'' = st"
    unfolding D(2) t(5) st_def by (simp only: py_str.simps start_text_strftime)
  have sv: "stored_datetime (D, (h, mi, 0, 0))"
    using D(1) t by (simp add: stored_datetime_def)
  have ps: "strptime st = Inr (D, (h, mi, 0, 0))"
    unfolding st_def by (rule strptime_strftime_stored [OF sv])
  from add_one_hour_ok [OF D(1) t(1-4) t(6)] obtain end_dt where
    e: "add_one_hour (D, (h, mi, 0, 0)) = Inr end_dt" "stored_datetime end_dt"
      "to_micro end_dt = to_micro (D, (h, mi, 0, 0)) + 3600 * 1000000"
    by blast
  have pe: "strptime (strftime end_dt) = Inr end_dt"
    by (rule strptime_strftime_stored [OF e(2)])
  have m: "migrate_times (legacy_date r) (legacy_time r) = Inr (st, strftime end_dt)"
    unfolding migrate_times_def Let_def st_eq using True
    by (simp add: ps e(1) del: add_one_hour.simps strftime.simps)
  have hl: "hour_later st (strftime end_dt)"
    unfolding hour_later_def by (simp add: ps pe e(3))
  from m hl True st_eq show ?thesis by simp
qed

lemma migrate_rows_ok:
  assumes "list_all legacy_row_ok olds" "distinct (map legacy_id olds)"
    "set (map legacy_id olds) \<inter> set (map event_id acc) = {}"
  shows "\<exists>rows. migrate_rows olds acc = Inr (acc @ rows) \<and> list_all2 migrated olds rows
           \<and> map event_id rows = map legacy_id olds"
  using assms
proof (induction olds arbitrary: acc)
  case Nil
  then show ?case by simp
next
  case (Cons r olds)
  from Cons.prems have ok: "legacy_row_ok r" and oks: "list_all legacy_row_ok olds"
    and dist: "distinct (map legacy_id olds)" and fresh: "legacy_id r \<notin> set (map event_id acc)"
    and notin: "legacy_id r \<notin> set (map legacy_id olds)"
    and disj: "set (map legacy_id olds) \<inter> set (map event_id acc) = {}"
    by auto
  from migrate_times_ok [OF ok] obtain st en where
    mt: "migrate_times (legacy_date r) (legacy_time r) = Inr (st, en)"
    and sp: "if truthy (legacy_time r)
         then st = py_str (legacy_date r) @ '' '' @ py_str (legacy_time r) @ '':00''
              \<and> hour_later st en
         else st = py_str (legacy_date r) @ '' 09:00:00''
              \<and> en = py_str (legacy_date r) @ '' 17:00:00''"
    by blast
  define row where "row =
    \<lparr>event_id = legacy_id r, start_datetime = st, end_datetime = en, title = legacy_title r,
     description = legacy_description r, tag = None, created_at = legacy_created_at r\<rparr>"
  have step: "migrate_rows (r # olds) acc = migrate_rows olds (acc @ [row])"
    using mt fresh by (simp add: row_def)
  have disj': "set (map legacy_id olds) \<inter> set (map event_id (acc @ [row])) = {}"
    using disj notin by (auto simp: row_def)
  from Cons.IH [OF oks dist disj'] obtain rows where
    r: "migrate_rows olds (acc @ [row]) = Inr ((acc @ [row]) @ rows)"
      "list_all2 migrated olds rows" "map event_id rows = map legacy_id olds"
    by blast
  have mr: "migrated r row"
  proof (cases "truthy (legacy_time r)")
    case True
    from sp have c: "st = py_str (legacy_date r) @ '' '' @ py_str (legacy_time r) @ '':00''
        \<and> hour_later st en"
      unfolding if_P [OF True] .
    have hl: "hour_later (start_datetime row) (end_datetime row)"
      using conjunct2 [OF c] by (simp add: row_def)
    have "start_datetime row = py_str (legacy_date r) @ '' '' @ py_str (legacy_time r) @ '':00''"
      using conjunct1 [OF c] by (simp add: row_def)
    with hl True show ?thesis
      unfolding migrated_def by (simp add: row_def)
  next
    case False
    with sp show ?thesis by (simp add: migrated_def row_def)
  qed
  have g1: "migrate_rows (r # olds) acc = Inr (acc @ (row # rows))"
    unfolding step r(1) by simp
  have g2: "list_all2 migrated (r # olds) (row # rows)"
    using mr r(2) by simp
  have g3: "map event_id (row # rows) = map legacy_id (r # olds)"
    using r(3) by (simp add: row_def)
  from g1 g2 g3 show ?case by blast
qed

lemma legacy_rows_ok: "list_all legacy_row_ok legacy_rows"
proof -
  have t1: "(''14:30'' :: string) = clock_text 14 30" and t3: "(''23:45'' :: string) = clock_text 23 45"
    by (simp_all add: clock_text_def text_eval)
  have d1: "(''2024-01-01'' :: string) = strftime_date (2024, 1, 1)"
    and d2: "(''2024-01-02'' :: string) = strftime_date (2024, 1, 2)"
    and d3: "(''2024-02-28'' :: string) = strftime_date (2024, 2, 28)"
    by (simp_all add: text_eval)
  have "legacy_row_ok (legacy_rows ! 0)"
    unfolding legacy_row_ok_def
    by (intro exI [of _ "(2024, 1, 1)"] conjI impI exI [of _ 14] exI [of _ 30])
      (simp_all add: legacy_rows_def days_in_month_def d1 t1)
  moreover have "legacy_row_ok (legacy_rows ! 1)"
    unfolding legacy_row_ok_def
    by (intro exI [of _ "(2024, 1, 2)"] conjI)
      (simp_all add: legacy_rows_def days_in_month_def d2)
  moreover have "legacy_row_ok (legacy_rows ! 2)"
    unfolding legacy_row_ok_def
    by (intro exI [of _ "(2024, 2, 28)"] conjI impI exI [of _ 23] exI [of _ 45])
      (simp_all add: legacy_rows_def days_in_month_def is_leap_def d3 t3)
  ultimately show ?thesis
    by (simp add: legacy_rows_def)
qed

lemmas parse_eval = strptime_def strptime_date_def strptime_time_def digit_val_def is_leap_def
  days_in_month_def

text \<open>
  C3. On a legacy table with distinct ids whose rows hold a date \<open>YYYY-MM-DD\<close> and
  either no time (\<open>NULL\<close> or the empty string) or a time \<open>HH:MM\<close> (in a year from 1000
  on and not the last hour of 9999-12-31, where Python's date arithmetic overflows),
  \<open>migrate_schema\<close> succeeds
  and gives one row per legacy row, in order: with the same id, \<open>created_at\<close>, title
  and description and no tag; with a time, \<open>start_datetime\<close> is \<open>date time:00\<close> and
  \<open>end_datetime\<close> is the datetime one hour later; without, they are 09:00:00 and
  17:00:00 of the date. The row \<open>2024-01-01\<close>, \<open>14:30\<close> becomes
  \<open>2024-01-01 14:30:00\<close> to \<open>2024-01-01 15:30:00\<close>.
\<close>

theorem migrate_schema_rows:
  assumes "list_all legacy_row_ok olds" and "distinct (map legacy_id olds)"
  shows "\<exists>rows. migrate_schema olds = Inr (rows, fold max (map legacy_id olds) 0)
           \<and> list_all2 migrated olds rows"
proof -
  from migrate_rows_ok [OF assms, of "[]"] obtain rows where
    r: "migrate_rows olds [] = Inr ([] @ rows)" "list_all2 migrated olds rows"
      "map event_id rows = map legacy_id olds"
    by auto
  then show ?thesis
    by (intro exI [of _ rows]) (simp add: migrate_schema_def)
qed

theorem migrate_schema_rows_witness:
  "list_all legacy_row_ok legacy_rows \<and> distinct (map legacy_id legacy_rows)
   \<and> migrate_schema legacy_rows =
       Inr ([\<lparr>event_id = 1, start_datetime = ''2024-01-01 14:30:00'',
               end_datetime = ''2024-01-01 15:30:00'', title = ''Dentist'', description = None,
               tag = None, created_at = Some ''2023-12-24 18:00:00''\<rparr>,
             \<lparr>event_id = 2, start_datetime = ''2024-01-02 09:00:00'',
               end_datetime = ''2024-01-02 17:00:00'', title = ''Holiday'',
               description = Some ''all day'', tag = None,
               created_at = Some ''2023-12-25 09:30:00''\<rparr>,
             \<lparr>event_id = 5, start_datetime = ''2024-02-28 23:45:00'',
               end_datetime = ''2024-02-29 00:45:00'', title = ''Night train'',
               description = None, tag = None, created_at = None\<rparr>], 5)
   \<and> list_all2 migrated legacy_rows (fst (projr (migrate_schema legacy_rows)))"
proof -
  have d: "distinct (map legacy_id legacy_rows)"
    by (simp add: legacy_rows_def)
  have m: "migrate_schema legacy_rows =
       Inr ([\<lparr>event_id = 1, start_datetime = ''2024-01-01 14:30:00'',
               end_datetime = ''2024-01-01 15:30:00'', title = ''Dentist'', description = None,
               tag = None, created_at = Some ''2023-12-24 18:00:00''\<rparr>,
             \<lparr>event_id = 2, start_datetime = ''2024-01-02 09:00:00'',
               end_datetime = ''2024-01-02 17:00:00'', title = ''Holiday'',
               description = Some ''all day'', tag = None,
               created_at = Some ''2023-12-25 09:30:00''\<rparr>,
             \<lparr>event_id = 5, start_datetime = ''2024-02-28 23:45:00'',
               end_datetime = ''2024-02-29 00:45:00'', title = ''Night train'',
               description = None, tag = None, created_at = None\<rparr>], 5)"
    by (simp add: migrate_schema_def legacy_rows_def migrate_times_def parse_eval text_eval)
  from migrate_schema_rows [OF legacy_rows_ok d] obtain rows where
    r: "migrate_schema legacy_rows = Inr (rows, fold max (map legacy_id legacy_rows) 0)"
      "list_all2 migrated legacy_rows rows"
    by blast
  from r have "list_all2 migrated legacy_rows (fst (projr (migrate_schema legacy_rows)))"
    by simp
  with legacy_rows_ok d m show ?thesis by blast
qed

section \<open>Python floats: properties\<close>

lemma round_half_even_int [simp]: "round_half_even (of_int n) = n"
  by (simp add: round_half_even_def)

lemma round_half_even_numeral [simp]: "round_half_even (numeral k) = numeral k"
  using round_half_even_int [of "numeral k"] by simp

lemma round_half_even_bounds: "\<lfloor>x\<rfloor> \<le> round_half_even x \<and> round_half_even x \<le> \<lfloor>x\<rfloor> + 1"
  by (simp add: round_half_even_def Let_def)

lemma round_pos_nonpos: "x \<le> 0 \<Longrightarrow> round_pos x = 0"
  by (simp add: round_pos.simps [of x])

lemma round_pos_double: "round_pos (2 * x) = 2 * round_pos x"
proof -
  consider "x \<le> 0" | "0 < x" "x < 2 ^ 52" | "2 ^ 52 \<le> x"
    by linarith
  then show ?thesis
  proof cases
    case 1
    then show ?thesis by (simp add: round_pos_nonpos)
  next
    case 2
    then show ?thesis by (simp add: round_pos.simps [of x])
  next
    case 3
    then have "2 ^ 53 \<le> 2 * x" "\<not> 2 * x \<le> 0" "\<not> 2 * x < 2 ^ 52" by simp_all
    then show ?thesis by (simp add: round_pos.simps [of "2 * x"])
  qed
qed

lemma round_pos_half: "round_pos (x / 2) = round_pos x / 2"
  using round_pos_double [of "x / 2"] by simp

text \<open>A whole number of at most 53 bits is a float.\<close>

lemma round_pos_int: "0 \<le> n \<Longrightarrow> n \<le> 2 ^ 53 \<Longrightarrow> round_pos (of_int n) = of_int n"
proof (induction "of_int n :: rat" arbitrary: n rule: round_pos.induct)
  case 1
  consider "n = 0" | "0 < n" "n < 2 ^ 52" | "n = 2 ^ 53" | "2 ^ 52 \<le> n" "n < 2 ^ 53"
    using "1.prems" by linarith
  then show ?case
  proof cases
    case 1
    then show ?thesis by (simp add: round_pos_nonpos)
  next
    case 2
    have "round_pos (of_int (2 * n)) = of_int (2 * n)"
      using 2 by (intro "1.hyps"(1)) simp_all
    then show ?thesis using round_pos_double [of "of_int n"] by simp
  next
    case 3
    have "round_pos 4503599627370496 = 4503599627370496"
      by (simp add: round_pos.simps [of 4503599627370496])
    then have "round_pos (2 * 4503599627370496) = 2 * 4503599627370496"
      by (simp only: round_pos_double)
    then show ?thesis using 3 by simp
  next
    case 4
    then have "\<not> (of_int n :: rat) \<le> 0" "\<not> (of_int n :: rat) < 2 ^ 52" "\<not> 2 ^ 53 \<le> (of_int n :: rat)"
      by (simp_all add: of_int_less_iff [of _ "2 ^ 53", simplified] of_int_le_iff [of "2 ^ 52", simplified]
          flip: of_int_power)
    then show ?thesis by (simp add: round_pos.simps [of "of_int n"])
  qed
qed

text \<open>Rounding returns a float: rounding it again changes nothing.\<close>

lemma round_pos_idem: "round_pos (round_pos x) = round_pos x"
proof (induction x rule: round_pos.induct)
  case (1 x)
  consider "x \<le> 0" | "0 < x" "x < 2 ^ 52" | "2 ^ 53 \<le> x" | "2 ^ 52 \<le> x" "x < 2 ^ 53"
    by linarith
  then show ?case
  proof cases
    case 1
    then show ?thesis by (simp add: round_pos_nonpos)
  next
    case 2
    then have u: "round_pos x = round_pos (2 * x) / 2" by (simp add: round_pos.simps [of x])
    from 2 have "round_pos (round_pos (2 * x)) = round_pos (2 * x)"
      by (intro "1.IH"(1)) simp_all
    then show ?thesis unfolding u round_pos_half by simp
  next
    case 3
    then have u: "round_pos x = 2 * round_pos (x / 2)" by (simp add: round_pos.simps [of x])
    from 3 have "round_pos (round_pos (x / 2)) = round_pos (x / 2)"
      by (intro "1.IH"(2)) simp_all
    then show ?thesis unfolding u round_pos_double by simp
  next
    case 4
    then have u: "round_pos x = of_int (round_half_even x)" by (simp add: round_pos.simps [of x])
    have lo: "4503599627370496 \<le> \<lfloor>x\<rfloor>" using 4(1) by (simp add: le_floor_iff)
    have hi: "\<lfloor>x\<rfloor> < 9007199254740992" using 4(2) by (simp add: floor_less_iff)
    have b1: "\<lfloor>x\<rfloor> \<le> round_half_even x" and b2: "round_half_even x \<le> \<lfloor>x\<rfloor> + 1"
      using round_half_even_bounds [of x] by simp_all
    have "0 \<le> round_half_even x" using lo b1 by linarith
    moreover have "round_half_even x \<le> 9007199254740992" using hi b2 by linarith
    then have "round_half_even x \<le> 2 ^ 53" by simp
    ultimately show ?thesis unfolding u by (rule round_pos_int)
  qed
qed

lemma round_pos_nonneg: "0 \<le> round_pos x"
proof (induction x rule: round_pos.induct)
  case (1 x)
  consider "x \<le> 0" | "0 < x" "x < 2 ^ 52" | "2 ^ 53 \<le> x" | "2 ^ 52 \<le> x" "x < 2 ^ 53"
    by linarith
  then show ?case
  proof cases
    case 1
    then show ?thesis by (simp add: round_pos_nonpos)
  next
    case 2
    with 1 show ?thesis by (simp add: round_pos.simps [of x])
  next
    case 3
    with 1 show ?thesis by (simp add: round_pos.simps [of x])
  next
    case 4
    have "0 \<le> \<lfloor>x\<rfloor>" using 4 by simp
    with round_half_even_bounds [of x] have "0 \<le> round_half_even x" by linarith
    with 4 show ?thesis by (simp add: round_pos.simps [of x])
  qed
qed

lemma binary64_idem: "binary64 (binary64 x) = binary64 x"
proof (cases "x < 0")
  case True
  show ?thesis
  proof (cases "round_pos (- x) = 0")
    case z: True
    with True show ?thesis by (simp add: binary64_def round_pos_nonpos)
  next
    case False
    with round_pos_nonneg [of "- x"] have "- round_pos (- x) < 0" by simp
    with True show ?thesis by (simp add: binary64_def round_pos_idem)
  qed
next
  case False
  with round_pos_nonneg [of x] show ?thesis by (simp add: binary64_def round_pos_idem)
qed

lemma binary64_of_int: "\<bar>n\<bar> \<le> 2 ^ 53 \<Longrightarrow> binary64 (of_int n) = of_int n"
proof (cases "n < 0")
  case True
  assume "\<bar>n\<bar> \<le> 2 ^ 53"
  with True have "round_pos (of_int (- n)) = of_int (- n)" by (intro round_pos_int) simp_all
  with True show ?thesis by (simp add: binary64_def)
next
  case False
  assume "\<bar>n\<bar> \<le> 2 ^ 53"
  with False have "round_pos (of_int n) = of_int n" by (intro round_pos_int) simp_all
  with False show ?thesis by (simp add: binary64_def)
qed

lemma binary64_numeral: "numeral k \<le> (9007199254740992 :: int) \<Longrightarrow> binary64 (numeral k) = numeral k"
  using binary64_of_int [of "numeral k"] by simp

lemma binary64_zero: "binary64 0 = 0"
  using binary64_of_int [of 0] by simp

lemma binary64_plus_zero: "binary64 (0 + binary64 x) = binary64 x"
  by (simp add: binary64_idem)

lemma floor_rat_numeral: "\<lfloor>(numeral a / numeral b :: rat)\<rfloor> = numeral a div numeral b"
  using floor_divide_of_int_eq [of "numeral a" "numeral b", where ?'a = rat] by simp

text \<open>A whole number of seconds is a float, so \<open>total_seconds\<close> is exact on it.\<close>

lemma binary64_seconds:
  "\<bar>n\<bar> \<le> 2 ^ 53 \<Longrightarrow> binary64 (of_int (n * 1000000) / 1000000) = of_int n"
  using binary64_of_int [of n] by simp


section \<open>Aggregation engine: the loops over the days\<close>

lemma days_induct:
  assumes "\<And>cur. (cur < E \<Longrightarrow> Q (next_day cur)) \<Longrightarrow> Q cur"
  shows "Q cur"
proof -
  have "E' = E \<longrightarrow> Q cur" for E' and res :: week_hours
    by (induction cur E' res rule: init_days.induct) (auto intro: assms)
  then show ?thesis by blast
qed

lemma init_days_step:
  "cur < E \<Longrightarrow>
   init_days cur E res = init_days (next_day cur) E (res(strftime_date cur \<mapsto> Map.empty))"
  "\<not> cur < E \<Longrightarrow> init_days cur E res = res"
  by (simp_all add: init_days.simps [of cur E res])

lemma clip_days_step_overlap:
  assumes "cur < E" "day_overlap s t cur" "res (strftime_date cur) = Some b"
  shows "clip_days s t tg cur E res =
     clip_days s t tg (next_day cur) E
       (res(strftime_date cur \<mapsto> add_hours tg (clipped_hours s t cur) b))"
proof -
  from assms(2) have o: "s \<le> (cur, (23, 59, 59, 999999))" "(cur, (0, 0, 0, 0)) \<le> t"
    by (simp_all add: day_overlap_def)
  show ?thesis
    by (subst clip_days.simps)
      (simp add: assms(1,3) o clipped_hours_def add_hours_def Let_def del: strftime_date.simps)
qed

lemma clip_days_step_skip:
  assumes "cur < E" "\<not> day_overlap s t cur"
  shows "clip_days s t tg cur E res = clip_days s t tg (next_day cur) E res"
proof -
  from assms(2) have o: "\<not> (s \<le> (cur, (23, 59, 59, 999999)) \<and> (cur, (0, 0, 0, 0)) \<le> t)"
    by (simp add: day_overlap_def)
  show ?thesis
    by (subst clip_days.simps) (simp only: assms(1) o Let_def if_True if_False)
qed

lemma clip_days_step_end: "\<not> cur < E \<Longrightarrow> clip_days s t tg cur E res = Inr res"
  by (subst clip_days.simps) simp

lemma init_days_char:
  "valid_date cur \<Longrightarrow> valid_date E \<Longrightarrow>
   (\<forall>D. valid_date D \<longrightarrow>
      init_days cur E res (strftime_date D)
        = (if cur \<le> D \<and> D < E then Some Map.empty else res (strftime_date D)))
   \<and> (\<forall>k. (\<forall>D. valid_date D \<longrightarrow> k \<noteq> strftime_date D) \<longrightarrow> init_days cur E res k = res k)"
proof (induction cur arbitrary: res rule: days_induct [where E = E])
  case (1 cur)
  show ?case
  proof (cases "cur < E")
    case False
    then have nD: "(cur \<le> D \<and> D < E) = False" for D by auto
    show ?thesis unfolding init_days_step(2) [OF False] nD by simp
  next
    case True
    have v: "valid_date (next_day cur)"
      using next_day_valid_le [OF "1.prems"(1,2) True] by simp
    define res1 where "res1 = res(strftime_date cur \<mapsto> (Map.empty :: tag_hours))"
    have st: "init_days cur E res = init_days (next_day cur) E res1"
      unfolding res1_def by (rule init_days_step(1) [OF True])
    note IH = "1.IH" [OF True v "1.prems"(2), of res1]
    have a: "init_days cur E res (strftime_date D)
        = (if cur \<le> D \<and> D < E then Some Map.empty else res (strftime_date D))"
      if vD: "valid_date D" for D
    proof (cases "D = cur")
      case True
      have ngt: "\<not> next_day cur \<le> cur" using next_day_greater [of cur] by simp
      from IH "1.prems"(1) have "init_days (next_day cur) E res1 (strftime_date cur)
          = (if next_day cur \<le> cur \<and> cur < E then Some Map.empty else res1 (strftime_date cur))"
        by blast
      then have "init_days (next_day cur) E res1 (strftime_date cur) = Some Map.empty"
        using ngt by (simp add: res1_def del: strftime_date.simps)
      with True \<open>cur < E\<close> show ?thesis
        unfolding st by simp
    next
      case False
      have ne: "strftime_date D \<noteq> strftime_date cur"
        using False by (simp only: strftime_date_inj [OF vD "1.prems"(1)]) simp
      have bt: "cur \<le> D \<longleftrightarrow> next_day cur \<le> D"
        by (rule between_next_day [OF "1.prems"(1) vD False])
      from IH vD have "init_days (next_day cur) E res1 (strftime_date D)
          = (if next_day cur \<le> D \<and> D < E then Some Map.empty else res1 (strftime_date D))"
        by blast
      then show ?thesis
        unfolding st bt using ne by (simp add: res1_def del: strftime_date.simps)
    qed
    have b: "init_days cur E res k = res k" if nk: "\<forall>D. valid_date D \<longrightarrow> k \<noteq> strftime_date D" for k
    proof -
      from nk "1.prems"(1) have "k \<noteq> strftime_date cur" by blast
      moreover from IH nk have "init_days (next_day cur) E res1 k = res1 k" by blast
      ultimately show ?thesis unfolding st by (simp add: res1_def del: strftime_date.simps)
    qed
    from a b show ?thesis by blast
  qed
qed

lemma clip_days_char:
  "valid_date cur \<Longrightarrow> valid_date E \<Longrightarrow>
   (\<forall>D. valid_date D \<and> cur \<le> D \<and> D < E \<longrightarrow> res (strftime_date D) \<noteq> None) \<Longrightarrow>
   \<exists>res'. clip_days s t tg cur E res = Inr res'
     \<and> (\<forall>D. valid_date D \<longrightarrow>
          res' (strftime_date D)
            = (if cur \<le> D \<and> D < E \<and> day_overlap s t D
               then map_option (add_hours tg (clipped_hours s t D)) (res (strftime_date D))
               else res (strftime_date D)))
     \<and> (\<forall>k. (\<forall>D. valid_date D \<longrightarrow> k \<noteq> strftime_date D) \<longrightarrow> res' k = res k)"
proof (induction cur arbitrary: res rule: days_induct [where E = E])
  case (1 cur)
  show ?case
  proof (cases "cur < E")
    case False
    then have nD: "(cur \<le> D \<and> D < E \<and> day_overlap s t D) = False" for D by auto
    show ?thesis unfolding clip_days_step_end [OF False] nD by simp
  next
    case True
    have v: "valid_date (next_day cur)"
      using next_day_valid_le [OF "1.prems"(1,2) True] by simp
    have ngt: "\<not> next_day cur \<le> cur" using next_day_greater [of cur] by simp
    from "1.prems"(1,3) True have "res (strftime_date cur) \<noteq> None" by blast
    then obtain b where b: "res (strftime_date cur) = Some b" by blast
    define res1 where "res1 =
      (if day_overlap s t cur
       then res(strftime_date cur \<mapsto> add_hours tg (clipped_hours s t cur) b) else res)"
    have st: "clip_days s t tg cur E res = clip_days s t tg (next_day cur) E res1"
    proof (cases "day_overlap s t cur")
      case ov: True
      show ?thesis
        unfolding res1_def if_P [OF ov] by (rule clip_days_step_overlap [where res = res and cur = cur, OF True ov b])
    next
      case ov: False
      show ?thesis
        unfolding res1_def if_not_P [OF ov] by (rule clip_days_step_skip [OF True ov])
    qed
    have keys1: "res1 k \<noteq> None" if "res k \<noteq> None" for k
      using that by (simp add: res1_def del: strftime_date.simps)
    have pre: "\<forall>D. valid_date D \<and> next_day cur \<le> D \<and> D < E \<longrightarrow> res1 (strftime_date D) \<noteq> None"
    proof (intro allI impI)
      fix D assume D: "valid_date D \<and> next_day cur \<le> D \<and> D < E"
      then have "next_day cur \<le> D" by blast
      with next_day_greater [of cur] have "cur < D" by (rule less_le_trans)
      then have "cur \<le> D" by (rule less_imp_le)
      with D "1.prems"(3) have "res (strftime_date D) \<noteq> None" by blast
      then show "res1 (strftime_date D) \<noteq> None" by (rule keys1)
    qed
    from "1.IH" [OF True v "1.prems"(2) pre] obtain res' where
      r: "clip_days s t tg (next_day cur) E res1 = Inr res'"
      and rD: "\<And>D. valid_date D \<Longrightarrow>
          res' (strftime_date D)
            = (if next_day cur \<le> D \<and> D < E \<and> day_overlap s t D
               then map_option (add_hours tg (clipped_hours s t D)) (res1 (strftime_date D))
               else res1 (strftime_date D))"
      and rk: "\<And>k. (\<forall>D. valid_date D \<longrightarrow> k \<noteq> strftime_date D) \<Longrightarrow> res' k = res1 k"
      by blast
    have a: "res' (strftime_date D)
            = (if cur \<le> D \<and> D < E \<and> day_overlap s t D
               then map_option (add_hours tg (clipped_hours s t D)) (res (strftime_date D))
               else res (strftime_date D))"
      if vD: "valid_date D" for D
    proof (cases "D = cur")
      case True
      from rD [OF vD] ngt True have "res' (strftime_date cur) = res1 (strftime_date cur)"
        by simp
      with True b \<open>cur < E\<close> show ?thesis
        by (simp add: res1_def del: strftime_date.simps)
    next
      case False
      have ne: "strftime_date D \<noteq> strftime_date cur"
        using False by (simp only: strftime_date_inj [OF vD "1.prems"(1)]) simp
      have bt: "cur \<le> D \<longleftrightarrow> next_day cur \<le> D"
        by (rule between_next_day [OF "1.prems"(1) vD False])
      have same: "res1 (strftime_date D) = res (strftime_date D)"
        using ne by (simp add: res1_def del: strftime_date.simps)
      show ?thesis
        unfolding rD [OF vD] bt same ..
    qed
    have c: "res' k = res k" if nk: "\<forall>D. valid_date D \<longrightarrow> k \<noteq> strftime_date D" for k
    proof -
      from nk "1.prems"(1) have "k \<noteq> strftime_date cur" by blast
      then have "res1 k = res k" by (simp add: res1_def del: strftime_date.simps)
      with rk [OF nk] show ?thesis by simp
    qed
    from r a c show ?thesis unfolding st by blast
  qed
qed

lemma add_hours_empty: "add_hours tg h Map.empty = [tg \<mapsto> binary64 h]"
  by (simp add: add_hours_def)

lemma valid_time_bounds:
  "valid_time T \<Longrightarrow> (0, 0, 0, 0) \<le> T \<and> T \<le> (23, 59, 59, 999999)"
  by (cases T) (auto simp: less_eq_prod_def)

lemma day_overlap_iff:
  assumes "valid_datetime s" "valid_datetime t"
  shows "day_overlap s t D \<longleftrightarrow> fst s \<le> D \<and> D \<le> fst t"
proof -
  obtain Ds Ts where s: "s = (Ds, Ts)" by (cases s)
  obtain Dt Tt where t: "t = (Dt, Tt)" by (cases t)
  from assms(1) s have a: "Ts \<le> (23, 59, 59, 999999)" using valid_time_bounds [of Ts] by simp
  from assms(2) t have b: "(0, 0, 0, 0) \<le> Tt" using valid_time_bounds [of Tt] by simp
  have "(Ds, Ts) \<le> (D, (23, 59, 59, 999999)) \<longleftrightarrow> Ds \<le> D"
    unfolding Pair_le_lex using a by (auto simp: le_less)
  moreover have "(D, (0, 0, 0, 0)) \<le> (Dt, Tt) \<longleftrightarrow> D \<le> Dt"
    unfolding Pair_le_lex using b by (auto simp: le_less)
  ultimately show ?thesis
    unfolding day_overlap_def s t by simp
qed

lemma day_start_le:
  assumes "valid_datetime s" "fst s = D"
  shows "(D, (0, 0, 0, 0)) \<le> s"
proof -
  obtain T where s: "s = (D, T)" using assms(2) by (cases s) auto
  from assms(1) s have "(0, 0, 0, 0) \<le> T" using valid_time_bounds [of T] by simp
  then show ?thesis unfolding s Pair_le_lex by blast
qed

lemma le_day_end:
  assumes "valid_datetime t" "fst t = D"
  shows "t \<le> (D, (23, 59, 59, 999999))"
proof -
  obtain T where t: "t = (D, T)" using assms(2) by (cases t) auto
  from assms(1) t have "T \<le> (23, 59, 59, 999999)" using valid_time_bounds [of T] by simp
  then show ?thesis unfolding t Pair_le_lex by blast
qed

lemma earlier_date_le: "fst s < D \<Longrightarrow> (s :: datetime) \<le> (D, T)"
  by (cases s) (simp add: Pair_le_lex)

lemma later_date_le: "D < fst t \<Longrightarrow> (D, T) \<le> (t :: datetime)"
  by (cases t) (simp add: Pair_le_lex)

lemma clip_inside:
  assumes "valid_datetime s" "valid_datetime t" "fst s = D" "fst t = D"
  shows "clipped_hours s t D = binary64 (total_seconds t s / 3600)"
proof -
  have "max s (D, (0, 0, 0, 0)) = s"
    by (rule max_absorb1 [OF day_start_le [OF assms(1,3)]])
  moreover have "min t (D, (23, 59, 59, 999999)) = t"
    by (rule min_absorb1 [OF le_day_end [OF assms(2,4)]])
  ultimately show ?thesis by (simp add: clipped_hours_def)
qed

lemma clip_first_day:
  assumes "valid_datetime s" "fst s = D" "D < fst t"
  shows "clipped_hours s t D = binary64 (total_seconds (D, (23, 59, 59, 999999)) s / 3600)"
proof -
  have "max s (D, (0, 0, 0, 0)) = s"
    by (rule max_absorb1 [OF day_start_le [OF assms(1,2)]])
  moreover have "min t (D, (23, 59, 59, 999999)) = (D, (23, 59, 59, 999999))"
    by (rule min_absorb2 [OF later_date_le [OF assms(3)]])
  ultimately show ?thesis by (simp add: clipped_hours_def)
qed

lemma clip_last_day:
  assumes "valid_datetime t" "fst t = D" "fst s < D"
  shows "clipped_hours s t D = binary64 (total_seconds t (D, (0, 0, 0, 0)) / 3600)"
proof -
  have "max s (D, (0, 0, 0, 0)) = (D, (0, 0, 0, 0))"
    by (rule max_absorb2 [OF earlier_date_le [OF assms(3)]])
  moreover have "min t (D, (23, 59, 59, 999999)) = t"
    by (rule min_absorb1 [OF le_day_end [OF assms(1,2)]])
  ultimately show ?thesis by (simp add: clipped_hours_def)
qed

lemma midnight_parts:
  assumes "valid_date D"
  shows "(to_micro (D, (23, 59, 59, 999999)) - to_micro s)
         + (to_micro t - to_micro (next_day D, (0, 0, 0, 0)))
       = to_micro t - to_micro s - 1"
proof -
  have "to_micro (next_day D, (0, 0, 0, 0)) = to_micro (D, (23, 59, 59, 999999)) + 1"
    by (simp add: ymd2ord_next_day [OF assms])
  then show ?thesis by simp
qed

text \<open>
  Between two datetimes of the store on one day lies a whole number of seconds, which
  \<open>total_seconds\<close> returns exactly; the hours are then the float nearest to the
  duration in hours.
\<close>

lemma same_day_hours:
  assumes "stored_datetime s" "stored_datetime t" "fst t = fst s"
  shows "binary64 (total_seconds t s / 3600)
       = binary64 (of_int (to_micro t - to_micro s) / 3600000000)"
proof -
  obtain D h mi sec us where s: "s = (D, (h, mi, sec, us))" by (cases s) auto
  obtain D' h' mi' sec' us' where t: "t = (D', (h', mi', sec', us'))" by (cases t) auto
  from assms s t have z: "us = 0" "us' = 0" "D' = D"
    by (simp_all add: stored_datetime_def)
  from assms(1,2) s t have b: "0 \<le> h" "h \<le> 23" "0 \<le> mi" "mi \<le> 59" "0 \<le> sec" "sec \<le> 59"
    "0 \<le> h'" "h' \<le> 23" "0 \<le> mi'" "mi' \<le> 59" "0 \<le> sec'" "sec' \<le> 59"
    by (simp_all add: stored_datetime_def)
  define n where "n = (h' - h) * 3600 + (mi' - mi) * 60 + (sec' - sec)"
  have d: "to_micro t - to_micro s = n * 1000000"
    unfolding s t z n_def by (simp add: algebra_simps)
  have "\<bar>n\<bar> \<le> 86399" unfolding n_def using b by (simp add: abs_le_iff algebra_simps)
  then have "\<bar>n\<bar> \<le> 2 ^ 53" by simp
  then have ts: "total_seconds t s = of_int n"
    unfolding total_seconds_def d by (rule binary64_seconds)
  have "(of_int n :: rat) / 3600 = of_int (n * 1000000) / 3600000000" by simp
  then show ?thesis unfolding ts d by simp
qed

lemma week_selected:
  assumes "stored_datetime s" "stored_datetime t" "valid_date S" "valid_date E"
  shows "strftime s < strftime_date E \<and> strftime_date S < strftime t \<longleftrightarrow> fst s < E \<and> S \<le> fst t"
proof -
  obtain Ds ts where s: "s = (Ds, ts)" by (cases s)
  obtain Dt tt where t: "t = (Dt, tt)" by (cases t)
  from assms s t have v: "valid_date Ds" "valid_date Dt"
    by (simp_all add: stored_datetime_def)
  show ?thesis
    unfolding s t
    by (simp only: strftime_less_date [OF v(1) assms(4)] date_less_strftime [OF assms(3) v(2)]
        fst_conv)
qed

lemma process_events_stored:
  assumes "start_datetime e = strftime s" "end_datetime e = strftime t"
    "stored_datetime s" "stored_datetime t"
  shows "process_events (e # es) S E res =
     (case clip_days s t (bucket_tag (tag e)) S E res of
        Inl err \<Rightarrow> Inl err
      | Inr res' \<Rightarrow> process_events es S E res')"
  by (simp add: assms(1,2) strptime_strftime_stored [OF assms(3)]
      strptime_strftime_stored [OF assms(4)] del: strftime.simps)

lemma hours_for_week_unfold:
  assumes "valid_date S" "valid_date E"
  shows "get_tag_hours_for_week d (strftime_date S) (strftime_date E)
     = process_events (week_events d (strftime_date S) (strftime_date E)) S E
         (init_days S E Map.empty)"
  by (simp add: get_tag_hours_for_week_def Let_def strptime_date_strftime [OF assms(1)]
      strptime_date_strftime [OF assms(2)] del: strftime_date.simps)

lemma init_days_week:
  assumes "valid_date S" "valid_date E" "valid_date D" "S \<le> D" "D < E"
  shows "init_days S E Map.empty (strftime_date D) = Some Map.empty"
proof -
  from init_days_char [OF assms(1,2), of Map.empty] assms(3)
  have "init_days S E Map.empty (strftime_date D)
      = (if S \<le> D \<and> D < E then Some Map.empty else Map.empty (strftime_date D))"
    by blast
  with assms(4,5) show ?thesis by simp
qed

lemma clip_event:
  assumes "valid_date S" "valid_date E" "valid_datetime s" "valid_datetime t"
    and "\<forall>D. valid_date D \<and> S \<le> D \<and> D < E \<longrightarrow> res (strftime_date D) \<noteq> None"
  shows "\<exists>res'. clip_days s t tg S E res = Inr res'
     \<and> (\<forall>D. valid_date D \<and> S \<le> D \<and> D < E \<longrightarrow>
          res' (strftime_date D)
            = (if fst s \<le> D \<and> D \<le> fst t
               then map_option (add_hours tg (clipped_hours s t D)) (res (strftime_date D))
               else res (strftime_date D)))
     \<and> (\<forall>D. valid_date D \<and> S \<le> D \<and> D < E \<longrightarrow> res' (strftime_date D) \<noteq> None)"
proof -
  from clip_days_char [OF assms(1,2,5), of s t tg] obtain res' where
    r: "clip_days s t tg S E res = Inr res'"
    and rD: "\<And>D. valid_date D \<Longrightarrow>
          res' (strftime_date D)
            = (if S \<le> D \<and> D < E \<and> day_overlap s t D
               then map_option (add_hours tg (clipped_hours s t D)) (res (strftime_date D))
               else res (strftime_date D))"
    by blast
  have a: "res' (strftime_date D)
            = (if fst s \<le> D \<and> D \<le> fst t
               then map_option (add_hours tg (clipped_hours s t D)) (res (strftime_date D))
               else res (strftime_date D))"
    if "valid_date D \<and> S \<le> D \<and> D < E" for D
    using rD [of D] that by (simp only: day_overlap_iff [OF assms(3,4)] simp_thms)
  have b: "res' (strftime_date D) \<noteq> None" if D: "valid_date D \<and> S \<le> D \<and> D < E" for D
  proof -
    from assms(5) D have "res (strftime_date D) \<noteq> None" by blast
    then show ?thesis unfolding a [OF D] by (simp del: strftime_date.simps)
  qed
  from r a b show ?thesis by blast
qed

section \<open>Aggregation engine: properties\<close>

lemmas db_eval = empty_db_def add_event_def insert_event_def next_rowid_def

lemmas float_eval = binary64_def round_pos.simps round_half_even_def Let_def floor_rat_numeral

lemmas week_eval = float_eval get_tag_hours_for_week_def week_events_def hours_at_def strptime_def strptime_date_def strptime_time_def digit_val_def is_leap_def
  days_in_month_def text_eval
  days_before_year_def days_before_month_def total_seconds_def bucket_tag_def
  init_days.simps clip_days.simps less_prod_def less_eq_prod_def Let_def

lemma overlap_db_events:
  "events overlap_db =
     [\<lparr>event_id = 1, start_datetime = ''2024-06-01 10:00:00'',
       end_datetime = ''2024-06-01 12:00:00'', title = ''Standup'', description = Some [],
       tag = Some ''Work'', created_at = Some ''2024-05-20 08:00:00''\<rparr>,
      \<lparr>event_id = 2, start_datetime = ''2024-06-01 11:00:00'',
       end_datetime = ''2024-06-01 13:00:00'', title = ''Review'', description = Some [],
       tag = Some ''Work'', created_at = Some ''2024-05-20 08:05:00''\<rparr>]"
  by (simp add: overlap_db_def db_eval)

lemma midnight_db_events:
  "events midnight_db =
     [\<lparr>event_id = 1, start_datetime = ''2024-06-01 23:00:00'',
       end_datetime = ''2024-06-02 01:00:00'', title = ''Release'', description = Some [],
       tag = Some ''Work'', created_at = Some ''2024-05-20 08:00:00''\<rparr>]"
  by (simp add: midnight_db_def db_eval)

lemma one_day_db_events:
  "events one_day_db =
     [\<lparr>event_id = 1, start_datetime = ''2024-06-01 10:00:00'',
       end_datetime = ''2024-06-01 12:00:00'', title = ''Standup'', description = Some [],
       tag = Some ''Work'', created_at = Some ''2024-05-20 08:00:00''\<rparr>]"
  by (simp add: one_day_db_def db_eval)

text \<open>
  C1, as stated, fails: for the two events alone and the week from 2024-05-27 to
  2024-06-03 the code reports 4 hours for \<open>Work\<close> on 2024-06-01, not 3: each event
  adds its own two hours.
\<close>

theorem overlap_hours_counterexample:
  "hours_at (get_tag_hours_for_week overlap_db ''2024-05-27'' ''2024-06-03'')
      ''2024-06-01'' ''Work'' = Some 4
   \<and> hours_at (get_tag_hours_for_week overlap_db ''2024-05-27'' ''2024-06-03'')
      ''2024-06-01'' ''Work'' \<noteq> Some 3"
  by (simp add: overlap_db_events week_eval)

text \<open>
  C2, as stated, fails: the event from 2024-06-01 23:00:00 to 2024-06-02 01:00:00
  lasts two hours, \<open>2.0\<close> as a float. The code reports for the first day the float of
  3599.999999 seconds in hours, which is \<open>562949953264937 / 2\<^sup>4\<^sup>9\<close> and prints as
  \<open>0.9999999997222222\<close>, and \<open>1.0\<close> for the second day. The two do not sum to \<open>2.0\<close>,
  neither exactly nor as floats.
\<close>

theorem midnight_split_counterexample:
  "hours_at (get_tag_hours_for_week midnight_db ''2024-05-27'' ''2024-06-03'')
      ''2024-06-01'' ''Work'' = Some (562949953264937 / 562949953421312)
   \<and> hours_at (get_tag_hours_for_week midnight_db ''2024-05-27'' ''2024-06-03'')
      ''2024-06-02'' ''Work'' = Some 1
   \<and> binary64 (total_seconds ((2024, 6, 2), (1, 0, 0, 0)) ((2024, 6, 1), (23, 0, 0, 0)) / 3600) = 2
   \<and> 562949953264937 / 562949953421312 + 1 \<noteq> (2 :: rat)
   \<and> binary64 (562949953264937 / 562949953421312 + 1) \<noteq> 2"
  by (simp add: midnight_db_events week_eval)

lemmas calendar_eval = total_seconds_def days_before_year_def days_before_month_def
  days_in_month_def is_leap_def

subsection \<open>What every event adds to a day\<close>

lemma sum_hours_Nil: "sum_hours [] = None"
  by (simp add: sum_hours_def)

lemma add_hours_at:
  "binary64 h = h \<Longrightarrow>
   add_hours tg h b tg' = (if tg' = tg then plus_hours (b tg) (Some h) else b tg')"
  by (cases "b tg") (simp_all add: add_hours_def)

lemma clipped_hours_float: "binary64 (clipped_hours s t D) = clipped_hours s t D"
  by (simp add: clipped_hours_def binary64_idem)

lemma sum_hours_some: "foldl plus_hours (Some a) xs \<noteq> None"
proof (induction xs arbitrary: a)
  case Nil
  show ?case by simp
next
  case (Cons x xs)
  then show ?case by (cases x) simp_all
qed

lemma sum_hours_present: "Some h \<in> set xs \<Longrightarrow> sum_hours xs \<noteq> None"
  unfolding sum_hours_def
proof (induction xs)
  case Nil
  then show ?case by simp
next
  case (Cons x xs)
  then show ?case by (cases x) (auto simp: sum_hours_some)
qed

lemma strptime_date_valid: "strptime_date x = Inr D \<Longrightarrow> valid_date D"
  unfolding strptime_date_def
  by (auto split: if_splits option.splits simp del: valid_date.simps)

lemma strptime_time_valid: "strptime_time x = Inr T \<Longrightarrow> valid_time T"
  unfolding strptime_time_def
  by (auto split: if_splits option.splits simp del: valid_time.simps)

lemma strptime_valid: "strptime x = Inr dt \<Longrightarrow> valid_datetime dt"
  unfolding strptime_def
  by (auto split: if_splits sum.splits dest: strptime_date_valid strptime_time_valid
      simp del: valid_date.simps valid_time.simps)

lemma process_events_char:
  assumes "valid_date S" "valid_date E"
  shows "(\<forall>x \<in> set evs. \<not> isl (strptime (start_datetime x)) \<and> \<not> isl (strptime (end_datetime x)))
    \<Longrightarrow> (\<forall>D. valid_date D \<and> S \<le> D \<and> D < E \<longrightarrow> res (strftime_date D) \<noteq> None)
    \<Longrightarrow> \<exists>res'. process_events evs S E res = Inr res'
          \<and> (\<forall>D tg. valid_date D \<and> S \<le> D \<and> D < E \<longrightarrow>
                hours_at (Inr res') (strftime_date D) tg
                  = foldl plus_hours (hours_at (Inr res) (strftime_date D) tg)
                      (map (\<lambda>x. event_day_hours x D tg) evs))
          \<and> (\<forall>D. valid_date D \<and> S \<le> D \<and> D < E \<longrightarrow> res' (strftime_date D) \<noteq> None)"
proof (induction evs arbitrary: res)
  case Nil
  then show ?case by simp
next
  case (Cons e evs)
  from Cons.prems(1) obtain s t where
    ps: "strptime (start_datetime e) = Inr s" and pt: "strptime (end_datetime e) = Inr t"
    by (cases "strptime (start_datetime e)"; cases "strptime (end_datetime e)") auto
  have vs: "valid_datetime s" and vt: "valid_datetime t"
    using ps pt by (auto dest: strptime_valid)
  from Cons.prems(1) have rest:
    "\<forall>x \<in> set evs. \<not> isl (strptime (start_datetime x)) \<and> \<not> isl (strptime (end_datetime x))"
    by simp
  from clip_event [OF assms vs vt Cons.prems(2), of "bucket_tag (tag e)"] obtain res1 where
    r1: "clip_days s t (bucket_tag (tag e)) S E res = Inr res1"
    and rD: "\<And>D. valid_date D \<and> S \<le> D \<and> D < E \<Longrightarrow>
          res1 (strftime_date D)
            = (if fst s \<le> D \<and> D \<le> fst t
               then map_option (add_hours (bucket_tag (tag e)) (clipped_hours s t D))
                      (res (strftime_date D))
               else res (strftime_date D))"
    and keys1: "\<forall>D. valid_date D \<and> S \<le> D \<and> D < E \<longrightarrow> res1 (strftime_date D) \<noteq> None"
    by blast
  from Cons.IH [OF rest keys1] obtain res' where
    run: "process_events evs S E res1 = Inr res'"
    and rh: "\<And>D tg. valid_date D \<and> S \<le> D \<and> D < E \<Longrightarrow>
                hours_at (Inr res') (strftime_date D) tg
                  = foldl plus_hours (hours_at (Inr res1) (strftime_date D) tg)
                      (map (\<lambda>x. event_day_hours x D tg) evs)"
    and keys': "\<forall>D. valid_date D \<and> S \<le> D \<and> D < E \<longrightarrow> res' (strftime_date D) \<noteq> None"
    by blast
  have step: "process_events (e # evs) S E res = Inr res'"
    by (simp add: ps pt r1 run)
  have one: "hours_at (Inr res1) (strftime_date D) tg
      = plus_hours (hours_at (Inr res) (strftime_date D) tg) (event_day_hours e D tg)"
    if D: "valid_date D \<and> S \<le> D \<and> D < E" for D tg
  proof -
    from Cons.prems(2) D obtain b where b: "res (strftime_date D) = Some b" by blast
    have ov: "day_overlap s t D \<longleftrightarrow> fst s \<le> D \<and> D \<le> fst t"
      by (rule day_overlap_iff [OF vs vt])
    show ?thesis
      unfolding hours_at_def sum.case rD [OF D] b event_day_hours_def ps pt
      by (simp add: add_hours_at [OF clipped_hours_float] ov)
  qed
  have "hours_at (Inr res') (strftime_date D) tg
                  = foldl plus_hours (hours_at (Inr res) (strftime_date D) tg)
                      (map (\<lambda>x. event_day_hours x D tg) (e # evs))"
    if D: "valid_date D \<and> S \<le> D \<and> D < E" for D tg
    unfolding rh [OF D] one [OF D] by simp
  with step keys' show ?case by blast
qed

lemma week_hours_sum:
  assumes "valid_date S" "valid_date E"
    and "\<forall>x \<in> set (week_events d (strftime_date S) (strftime_date E)).
          \<not> isl (strptime (start_datetime x)) \<and> \<not> isl (strptime (end_datetime x))"
  shows "\<exists>r. get_tag_hours_for_week d (strftime_date S) (strftime_date E) = Inr r
     \<and> (\<forall>D tg. valid_date D \<and> S \<le> D \<and> D < E \<longrightarrow>
          hours_at (Inr r) (strftime_date D) tg
            = sum_hours (map (\<lambda>x. event_day_hours x D tg)
                (week_events d (strftime_date S) (strftime_date E))))
     \<and> (\<forall>D. valid_date D \<and> S \<le> D \<and> D < E \<longrightarrow> r (strftime_date D) \<noteq> None)"
proof -
  have keys: "\<forall>D. valid_date D \<and> S \<le> D \<and> D < E \<longrightarrow>
      init_days S E Map.empty (strftime_date D) \<noteq> None"
    using init_days_week [OF assms(1,2)] by simp
  from process_events_char [OF assms(1,2) assms(3) keys] obtain r where
    run: "process_events (week_events d (strftime_date S) (strftime_date E)) S E
            (init_days S E Map.empty) = Inr r"
    and rh: "\<And>D tg. valid_date D \<and> S \<le> D \<and> D < E \<Longrightarrow>
                hours_at (Inr r) (strftime_date D) tg
                  = foldl plus_hours (hours_at (Inr (init_days S E Map.empty)) (strftime_date D) tg)
                      (map (\<lambda>x. event_day_hours x D tg)
                         (week_events d (strftime_date S) (strftime_date E)))"
    and keys': "\<forall>D. valid_date D \<and> S \<le> D \<and> D < E \<longrightarrow> r (strftime_date D) \<noteq> None"
    by blast
  have "hours_at (Inr r) (strftime_date D) tg
            = sum_hours (map (\<lambda>x. event_day_hours x D tg)
                (week_events d (strftime_date S) (strftime_date E)))"
    if D: "valid_date D \<and> S \<le> D \<and> D < E" for D tg
  proof -
    from D have "init_days S E Map.empty (strftime_date D) = Some Map.empty"
      using init_days_week [OF assms(1,2), of D] by simp
    then have "hours_at (Inr (init_days S E Map.empty)) (strftime_date D) tg = None"
      by (simp add: hours_at_def)
    then show ?thesis unfolding rh [OF D] by (simp add: sum_hours_def)
  qed
  with run keys' show ?thesis
    unfolding hours_for_week_unfold [OF assms(1,2)] by blast
qed

lemma event_selected:
  assumes "valid_date S" "valid_date E" "e \<in> set (events d)"
    and "start_datetime e = strftime s" "end_datetime e = strftime t"
    and "stored_datetime s" "stored_datetime t" "s < t" "S \<le> fst s" "fst t < E"
  shows "e \<in> set (week_events d (strftime_date S) (strftime_date E))"
proof -
  have mono: "fst s \<le> fst t" using assms(8) by (intro fst_mono_datetime) simp
  have "strftime s < strftime_date E \<and> strftime_date S < strftime t"
    unfolding week_selected [OF assms(6,7) assms(1,2)]
    using le_less_trans [OF mono assms(10)] order_trans [OF assms(9) mono] by blast
  with assms(3) show ?thesis
    by (simp add: week_events_def assms(4,5) del: strftime.simps)
qed

lemma one_day_event_hours:
  assumes "start_datetime e = strftime s" "end_datetime e = strftime t"
    and "stored_datetime s" "stored_datetime t" "fst t = fst s"
  shows "event_day_hours e D tg =
     (if D = fst s \<and> tg = bucket_tag (tag e)
      then Some (binary64 (of_int (to_micro t - to_micro s) / 3600000000)) else None)"
proof -
  have vs: "valid_datetime s" and vt: "valid_datetime t"
    using assms(3,4) by (simp_all add: stored_datetime_def)
  have ov: "day_overlap s t D \<longleftrightarrow> D = fst s"
    unfolding day_overlap_iff [OF vs vt] assms(5) by auto
  have "event_day_hours e D tg =
      (if bucket_tag (tag e) = tg \<and> D = fst s then Some (clipped_hours s t D) else None)"
    unfolding event_day_hours_def assms(1,2) strptime_strftime_stored [OF assms(3)]
      strptime_strftime_stored [OF assms(4)]
    by (simp add: ov)
  then show ?thesis
    using clip_inside [OF vs vt refl assms(5)] same_day_hours [OF assms(3,4,5)] by auto
qed

lemma two_day_event_hours:
  assumes "start_datetime e = strftime s" "end_datetime e = strftime t"
    and "stored_datetime s" "stored_datetime t" "fst t = next_day (fst s)" "valid_date D"
  shows "event_day_hours e D tg =
     (if D = fst s \<and> tg = bucket_tag (tag e)
      then Some (binary64 (total_seconds (fst s, (23, 59, 59, 999999)) s / 3600))
      else if D = fst t \<and> tg = bucket_tag (tag e)
      then Some (binary64 (of_int (to_micro t - to_micro (fst t, (0, 0, 0, 0))) / 3600000000))
      else None)"
proof -
  have vs: "valid_datetime s" and vt: "valid_datetime t"
    using assms(3,4) by (simp_all add: stored_datetime_def)
  have vds: "valid_date (fst s)" using assms(3) by (rule stored_valid_date)
  have less: "fst s < fst t" unfolding assms(5) by (rule next_day_greater)
  have ov: "day_overlap s t D \<longleftrightarrow> D = fst s \<or> D = fst t"
  proof
    assume "day_overlap s t D"
    then have b: "fst s \<le> D" "D \<le> fst t" by (simp_all add: day_overlap_iff [OF vs vt])
    show "D = fst s \<or> D = fst t"
    proof (cases "D = fst s")
      case False
      with b(1) have "fst s < D" by (auto simp: less_le)
      from next_day_valid_le [OF vds assms(6) this] have "fst t \<le> D"
        unfolding assms(5) by simp
      with b(2) show ?thesis by simp
    qed simp
  next
    assume "D = fst s \<or> D = fst t"
    with less show "day_overlap s t D"
      unfolding day_overlap_iff [OF vs vt] by (auto simp: less_le)
  qed
  have e: "event_day_hours e D tg =
      (if bucket_tag (tag e) = tg \<and> (D = fst s \<or> D = fst t) then Some (clipped_hours s t D)
       else None)"
    unfolding event_day_hours_def assms(1,2) strptime_strftime_stored [OF assms(3)]
      strptime_strftime_stored [OF assms(4)]
    by (simp add: ov)
  have c1: "clipped_hours s t (fst s)
      = binary64 (total_seconds (fst s, (23, 59, 59, 999999)) s / 3600)"
    by (rule clip_first_day [OF vs refl less])
  have st0: "stored_datetime (fst t, (0, 0, 0, 0))"
    using stored_valid_date [OF assms(4)] by (simp add: stored_datetime_def)
  have c2: "clipped_hours s t (fst t)
      = binary64 (of_int (to_micro t - to_micro (fst t, (0, 0, 0, 0))) / 3600000000)"
    unfolding clip_last_day [OF vt refl less]
    by (rule same_day_hours [OF st0 assms(4)]) simp
  from less have ne: "fst t \<noteq> fst s" by simp
  show ?thesis
    unfolding e using c1 c2 ne by auto
qed

lemma tenths_db_events:
  "events tenths_db =
     [\<lparr>event_id = 1, start_datetime = ''2024-06-01 09:00:00'',
       end_datetime = ''2024-06-01 09:06:00'', title = ''Mail'', description = Some [],
       tag = Some ''Work'', created_at = Some ''2024-05-20 08:00:00''\<rparr>,
      \<lparr>event_id = 2, start_datetime = ''2024-06-01 10:00:00'',
       end_datetime = ''2024-06-01 10:06:00'', title = ''Call'', description = Some [],
       tag = Some ''Work'', created_at = Some ''2024-05-20 08:05:00''\<rparr>,
      \<lparr>event_id = 3, start_datetime = ''2024-06-01 11:00:00'',
       end_datetime = ''2024-06-01 11:06:00'', title = ''Notes'', description = Some [],
       tag = Some ''Work'', created_at = Some ''2024-05-20 08:10:00''\<rparr>]"
  by (simp add: tenths_db_def db_eval)

lemmas hours_eval = event_day_hours_def day_overlap_def clipped_hours_def bucket_tag_def
  strptime_def strptime_date_def strptime_time_def digit_val_def
  less_eq_prod_def less_prod_def min_def max_def calendar_eval float_eval sum_hours_def

text \<open>
  C2, amended. Take any table and a range of valid dates from \<open>S\<close> (of a year from 1000
  on, so that the keys are written with four digits) up to \<open>E\<close>, such that the datetimes
  of every event the query selects parse. Then \<open>get_tag_hours_for_week\<close> returns a result
  \<open>r\<close> that has a dictionary for every day of the range, and the hours it holds for a tag
  on a day are what the selected events add to that tag on that day, summed as floats
  in the order of the query. Take an event \<open>e\<close> of the table, its datetimes texts in the
  format of the store with start before end, whose days lie in the range. It is
  selected, and:
  \<^item> when it lies within one calendar day, it adds to its tag on that day the float
    nearest to its duration in hours, and nothing to any other day or tag;
  \<^item> when it ends on the day after the one it starts on, it adds to its tag the hours
    from the start to 23:59:59.999999 on the first day, as \<open>total_seconds() / 3600.0\<close>
    computes them, and on the second day the float nearest to the hours from 00:00:00
    to the end, and nothing to any other day or tag; the two spans together are one
    microsecond short of the duration of the event.
\<close>

theorem event_hours_by_day:
  assumes "valid_date S" and "valid_date E" and "1000 \<le> fst S"
    and "\<forall>x \<in> set (week_events d (strftime_date S) (strftime_date E)).
          \<not> isl (strptime (start_datetime x)) \<and> \<not> isl (strptime (end_datetime x))"
    and "e \<in> set (events d)"
    and "start_datetime e = strftime s" and "end_datetime e = strftime t"
    and "stored_datetime s" and "stored_datetime t" and "s < t"
    and "S \<le> fst s" and "fst t < E"
  shows "\<exists>r. get_tag_hours_for_week d (strftime_date S) (strftime_date E) = Inr r
     \<and> (\<forall>D. valid_date D \<and> S \<le> D \<and> D < E \<longrightarrow>
          r (strftime_date D) \<noteq> None
          \<and> (\<forall>tg. hours_at (Inr r) (strftime_date D) tg
                 = sum_hours (map (\<lambda>x. event_day_hours x D tg)
                     (week_events d (strftime_date S) (strftime_date E)))))
     \<and> e \<in> set (week_events d (strftime_date S) (strftime_date E))
     \<and> (fst t = fst s \<longrightarrow>
          (\<forall>D tg. event_day_hours e D tg =
             (if D = fst s \<and> tg = bucket_tag (tag e)
              then Some (binary64 (of_int (to_micro t - to_micro s) / 3600000000))
              else None)))
     \<and> (fst t = next_day (fst s) \<longrightarrow>
          (\<forall>D tg. valid_date D \<longrightarrow>
             event_day_hours e D tg =
               (if D = fst s \<and> tg = bucket_tag (tag e)
                then Some (binary64 (total_seconds (fst s, (23, 59, 59, 999999)) s / 3600))
                else if D = fst t \<and> tg = bucket_tag (tag e)
                then Some (binary64 (of_int (to_micro t - to_micro (fst t, (0, 0, 0, 0)))
                                       / 3600000000))
                else None))
          \<and> (to_micro (fst s, (23, 59, 59, 999999)) - to_micro s)
              + (to_micro t - to_micro (fst t, (0, 0, 0, 0)))
            = to_micro t - to_micro s - 1)"
proof -
  from week_hours_sum [OF assms(1,2,4)] obtain r where
    run: "get_tag_hours_for_week d (strftime_date S) (strftime_date E) = Inr r"
    and sums: "\<forall>D tg. valid_date D \<and> S \<le> D \<and> D < E \<longrightarrow>
          hours_at (Inr r) (strftime_date D) tg
            = sum_hours (map (\<lambda>x. event_day_hours x D tg)
                (week_events d (strftime_date S) (strftime_date E)))"
    and keys: "\<forall>D. valid_date D \<and> S \<le> D \<and> D < E \<longrightarrow> r (strftime_date D) \<noteq> None"
    by blast
  have sel: "e \<in> set (week_events d (strftime_date S) (strftime_date E))"
    by (rule event_selected [OF assms(1,2) assms(5-12)])
  have one: "\<forall>D tg. event_day_hours e D tg =
             (if D = fst s \<and> tg = bucket_tag (tag e)
              then Some (binary64 (of_int (to_micro t - to_micro s) / 3600000000))
              else None)"
    if "fst t = fst s"
    using one_day_event_hours [OF assms(6-9) that] by blast
  have two: "(\<forall>D tg. valid_date D \<longrightarrow>
             event_day_hours e D tg =
               (if D = fst s \<and> tg = bucket_tag (tag e)
                then Some (binary64 (total_seconds (fst s, (23, 59, 59, 999999)) s / 3600))
                else if D = fst t \<and> tg = bucket_tag (tag e)
                then Some (binary64 (of_int (to_micro t - to_micro (fst t, (0, 0, 0, 0)))
                                       / 3600000000))
                else None))
          \<and> (to_micro (fst s, (23, 59, 59, 999999)) - to_micro s)
              + (to_micro t - to_micro (fst t, (0, 0, 0, 0)))
            = to_micro t - to_micro s - 1"
    if nxt: "fst t = next_day (fst s)"
  proof
    show "\<forall>D tg. valid_date D \<longrightarrow>
             event_day_hours e D tg =
               (if D = fst s \<and> tg = bucket_tag (tag e)
                then Some (binary64 (total_seconds (fst s, (23, 59, 59, 999999)) s / 3600))
                else if D = fst t \<and> tg = bucket_tag (tag e)
                then Some (binary64 (of_int (to_micro t - to_micro (fst t, (0, 0, 0, 0)))
                                       / 3600000000))
                else None)"
      using two_day_event_hours [OF assms(6-9) nxt] by blast
    show "(to_micro (fst s, (23, 59, 59, 999999)) - to_micro s)
              + (to_micro t - to_micro (fst t, (0, 0, 0, 0)))
            = to_micro t - to_micro s - 1"
      unfolding nxt by (rule midnight_parts [OF stored_valid_date [OF assms(8)]])
  qed
  from run sums keys sel one two show ?thesis by blast
qed

theorem event_hours_by_day_witness:
  "valid_date (2024, 5, 27) \<and> valid_date (2024, 6, 3) \<and> 1000 \<le> fst ((2024, 5, 27) :: date)
   \<and> strftime_date (2024, 5, 27) = ''2024-05-27'' \<and> strftime_date (2024, 6, 3) = ''2024-06-03''
   \<and> list_all (\<lambda>x. \<not> isl (strptime (start_datetime x)) \<and> \<not> isl (strptime (end_datetime x)))
        (week_events one_day_db ''2024-05-27'' ''2024-06-03'')
   \<and> list_all (\<lambda>x. \<not> isl (strptime (start_datetime x)) \<and> \<not> isl (strptime (end_datetime x)))
        (week_events midnight_db ''2024-05-27'' ''2024-06-03'')
   \<and> list_all (\<lambda>x. \<not> isl (strptime (start_datetime x)) \<and> \<not> isl (strptime (end_datetime x)))
        (week_events tenths_db ''2024-05-27'' ''2024-06-03'')
   \<and> hd (events one_day_db) \<in> set (events one_day_db)
   \<and> start_datetime (hd (events one_day_db)) = strftime ((2024, 6, 1), (10, 0, 0, 0))
   \<and> end_datetime (hd (events one_day_db)) = strftime ((2024, 6, 1), (12, 0, 0, 0))
   \<and> hd (events midnight_db) \<in> set (events midnight_db)
   \<and> start_datetime (hd (events midnight_db)) = strftime ((2024, 6, 1), (23, 0, 0, 0))
   \<and> end_datetime (hd (events midnight_db)) = strftime ((2024, 6, 2), (1, 0, 0, 0))
   \<and> hd (events tenths_db) \<in> set (events tenths_db)
   \<and> start_datetime (hd (events tenths_db)) = strftime ((2024, 6, 1), (9, 0, 0, 0))
   \<and> end_datetime (hd (events tenths_db)) = strftime ((2024, 6, 1), (9, 6, 0, 0))
   \<and> stored_datetime ((2024, 6, 1), (10, 0, 0, 0)) \<and> stored_datetime ((2024, 6, 1), (12, 0, 0, 0))
   \<and> stored_datetime ((2024, 6, 1), (23, 0, 0, 0)) \<and> stored_datetime ((2024, 6, 2), (1, 0, 0, 0))
   \<and> stored_datetime ((2024, 6, 1), (9, 0, 0, 0)) \<and> stored_datetime ((2024, 6, 1), (9, 6, 0, 0))
   \<and> next_day (2024, 6, 1) = (2024, 6, 2)
   \<and> hours_at (get_tag_hours_for_week one_day_db ''2024-05-27'' ''2024-06-03'')
        ''2024-06-01'' ''Work'' = Some 2
   \<and> hours_at (get_tag_hours_for_week one_day_db ''2024-05-27'' ''2024-06-03'')
        ''2024-06-02'' ''Work'' = None
   \<and> hours_at (get_tag_hours_for_week midnight_db ''2024-05-27'' ''2024-06-03'')
        ''2024-06-01'' ''Work'' = Some (562949953264937 / 562949953421312)
   \<and> hours_at (get_tag_hours_for_week midnight_db ''2024-05-27'' ''2024-06-03'')
        ''2024-06-02'' ''Work'' = Some 1
   \<and> hours_at (get_tag_hours_for_week tenths_db ''2024-05-27'' ''2024-06-03'')
        ''2024-06-01'' ''Work'' = Some (1351079888211149 / 4503599627370496)"
proof -
  have vS: "valid_date (2024, 5, 27)" and vE: "valid_date (2024, 6, 3)"
    and v1: "valid_date (2024, 6, 1)" and v2: "valid_date (2024, 6, 2)"
    by (simp_all add: days_in_month_def)
  have y: "1000 \<le> fst ((2024, 5, 27) :: date)" by simp
  have fS: "strftime_date (2024, 5, 27) = ''2024-05-27''"
    and fE: "strftime_date (2024, 6, 3) = ''2024-06-03''"
    and f1: "strftime_date (2024, 6, 1) = ''2024-06-01''"
    and f2: "strftime_date (2024, 6, 2) = ''2024-06-02''"
    by (simp_all add: text_eval)
  have wa: "week_events one_day_db ''2024-05-27'' ''2024-06-03'' = [hd (events one_day_db)]"
    and wb: "week_events midnight_db ''2024-05-27'' ''2024-06-03'' = [hd (events midnight_db)]"
    and wc: "week_events tenths_db ''2024-05-27'' ''2024-06-03'' = events tenths_db"
    by (simp_all add: week_events_def one_day_db_events midnight_db_events tenths_db_events)
  have pa: "list_all (\<lambda>x. \<not> isl (strptime (start_datetime x)) \<and> \<not> isl (strptime (end_datetime x)))
        (week_events one_day_db ''2024-05-27'' ''2024-06-03'')"
    unfolding wa by (simp add: one_day_db_events parse_eval)
  have pb: "list_all (\<lambda>x. \<not> isl (strptime (start_datetime x)) \<and> \<not> isl (strptime (end_datetime x)))
        (week_events midnight_db ''2024-05-27'' ''2024-06-03'')"
    unfolding wb by (simp add: midnight_db_events parse_eval)
  have pc: "list_all (\<lambda>x. \<not> isl (strptime (start_datetime x)) \<and> \<not> isl (strptime (end_datetime x)))
        (week_events tenths_db ''2024-05-27'' ''2024-06-03'')"
    unfolding wc by (simp add: tenths_db_events parse_eval)
  have pa': "\<forall>x \<in> set (week_events one_day_db (strftime_date (2024, 5, 27))
          (strftime_date (2024, 6, 3))).
        \<not> isl (strptime (start_datetime x)) \<and> \<not> isl (strptime (end_datetime x))"
    unfolding fS fE using pa by (simp only: list_all_iff)
  have pb': "\<forall>x \<in> set (week_events midnight_db (strftime_date (2024, 5, 27))
          (strftime_date (2024, 6, 3))).
        \<not> isl (strptime (start_datetime x)) \<and> \<not> isl (strptime (end_datetime x))"
    unfolding fS fE using pb by (simp only: list_all_iff)
  have pc': "\<forall>x \<in> set (week_events tenths_db (strftime_date (2024, 5, 27))
          (strftime_date (2024, 6, 3))).
        \<not> isl (strptime (start_datetime x)) \<and> \<not> isl (strptime (end_datetime x))"
    unfolding fS fE using pc by (simp only: list_all_iff)
  have a1: "hd (events one_day_db) \<in> set (events one_day_db)"
    and a2: "start_datetime (hd (events one_day_db)) = strftime ((2024, 6, 1), (10, 0, 0, 0))"
    and a3: "end_datetime (hd (events one_day_db)) = strftime ((2024, 6, 1), (12, 0, 0, 0))"
    and a4: "bucket_tag (tag (hd (events one_day_db))) = ''Work''"
    by (simp_all add: one_day_db_events text_eval bucket_tag_def)
  have b1: "hd (events midnight_db) \<in> set (events midnight_db)"
    and b2: "start_datetime (hd (events midnight_db)) = strftime ((2024, 6, 1), (23, 0, 0, 0))"
    and b3: "end_datetime (hd (events midnight_db)) = strftime ((2024, 6, 2), (1, 0, 0, 0))"
    and b4: "bucket_tag (tag (hd (events midnight_db))) = ''Work''"
    by (simp_all add: midnight_db_events text_eval bucket_tag_def)
  have c1: "hd (events tenths_db) \<in> set (events tenths_db)"
    and c2: "start_datetime (hd (events tenths_db)) = strftime ((2024, 6, 1), (9, 0, 0, 0))"
    and c3: "end_datetime (hd (events tenths_db)) = strftime ((2024, 6, 1), (9, 6, 0, 0))"
    by (simp_all add: tenths_db_events text_eval)
  have s1: "stored_datetime ((2024, 6, 1), (10, 0, 0, 0))"
    and s2: "stored_datetime ((2024, 6, 1), (12, 0, 0, 0))"
    and s3: "stored_datetime ((2024, 6, 1), (23, 0, 0, 0))"
    and s4: "stored_datetime ((2024, 6, 2), (1, 0, 0, 0))"
    and s5: "stored_datetime ((2024, 6, 1), (9, 0, 0, 0))"
    and s6: "stored_datetime ((2024, 6, 1), (9, 6, 0, 0))"
    by (simp_all add: stored_datetime_def days_in_month_def)
  have l1: "((2024, 6, 1), (10, 0, 0, 0)) < (((2024, 6, 1), (12, 0, 0, 0)) :: datetime)"
    and l2: "((2024, 6, 1), (23, 0, 0, 0)) < (((2024, 6, 2), (1, 0, 0, 0)) :: datetime)"
    and l3: "((2024, 6, 1), (9, 0, 0, 0)) < (((2024, 6, 1), (9, 6, 0, 0)) :: datetime)"
    by (simp_all add: less_prod_def)
  have lo1: "(2024, 5, 27) \<le> fst (((2024, 6, 1), (10, 0, 0, 0)) :: datetime)"
    and hi1: "fst (((2024, 6, 1), (12, 0, 0, 0)) :: datetime) < (2024, 6, 3)"
    and lo2: "(2024, 5, 27) \<le> fst (((2024, 6, 1), (23, 0, 0, 0)) :: datetime)"
    and hi2: "fst (((2024, 6, 2), (1, 0, 0, 0)) :: datetime) < (2024, 6, 3)"
    and lo3: "(2024, 5, 27) \<le> fst (((2024, 6, 1), (9, 0, 0, 0)) :: datetime)"
    and hi3: "fst (((2024, 6, 1), (9, 6, 0, 0)) :: datetime) < (2024, 6, 3)"
    by (simp_all add: less_prod_def less_eq_prod_def)
  have in1: "valid_date (2024, 6, 1) \<and> (2024, 5, 27) \<le> ((2024, 6, 1) :: date)
      \<and> (2024, 6, 1) < ((2024, 6, 3) :: date)"
    and in2: "valid_date (2024, 6, 2) \<and> (2024, 5, 27) \<le> ((2024, 6, 2) :: date)
      \<and> (2024, 6, 2) < ((2024, 6, 3) :: date)"
    using v1 v2 by (simp_all add: less_prod_def less_eq_prod_def)
  have nd: "next_day (2024, 6, 1) = (2024, 6, 2)"
    by (simp add: days_in_month_def)
  from event_hours_by_day [OF vS vE y pa' a1 a2 a3 s1 s2 l1 lo1 hi1] obtain r where
    r: "get_tag_hours_for_week one_day_db (strftime_date (2024, 5, 27))
          (strftime_date (2024, 6, 3)) = Inr r"
    and rs: "\<And>D tg. valid_date D \<and> (2024, 5, 27) \<le> D \<and> D < (2024, 6, 3) \<Longrightarrow>
        hours_at (Inr r) (strftime_date D) tg
          = sum_hours (map (\<lambda>x. event_day_hours x D tg)
              (week_events one_day_db (strftime_date (2024, 5, 27)) (strftime_date (2024, 6, 3))))"
    and re: "\<And>D tg. event_day_hours (hd (events one_day_db)) D tg =
        (if D = (2024, 6, 1) \<and> tg = bucket_tag (tag (hd (events one_day_db)))
         then Some (binary64 (of_int (to_micro ((2024, 6, 1), (12, 0, 0, 0))
                      - to_micro ((2024, 6, 1), (10, 0, 0, 0))) / 3600000000))
         else None)"
    by auto
  have g1: "hours_at (get_tag_hours_for_week one_day_db ''2024-05-27'' ''2024-06-03'')
        ''2024-06-01'' ''Work'' = Some 2"
    using rs [OF in1, of "''Work''"] unfolding r [unfolded fS fE] fS fE f1 wa
    by (simp add: sum_hours_def re a4 calendar_eval float_eval)
  have g1': "hours_at (get_tag_hours_for_week one_day_db ''2024-05-27'' ''2024-06-03'')
        ''2024-06-02'' ''Work'' = None"
    using rs [OF in2, of "''Work''"] unfolding r [unfolded fS fE] fS fE f2 wa
    by (simp add: sum_hours_def re a4)
  from event_hours_by_day [OF vS vE y pb' b1 b2 b3 s3 s4 l2 lo2 hi2] nd obtain q where
    q: "get_tag_hours_for_week midnight_db (strftime_date (2024, 5, 27))
          (strftime_date (2024, 6, 3)) = Inr q"
    and qs: "\<And>D tg. valid_date D \<and> (2024, 5, 27) \<le> D \<and> D < (2024, 6, 3) \<Longrightarrow>
        hours_at (Inr q) (strftime_date D) tg
          = sum_hours (map (\<lambda>x. event_day_hours x D tg)
              (week_events midnight_db (strftime_date (2024, 5, 27)) (strftime_date (2024, 6, 3))))"
    and qe: "\<And>D tg. valid_date D \<Longrightarrow> event_day_hours (hd (events midnight_db)) D tg =
        (if D = (2024, 6, 1) \<and> tg = bucket_tag (tag (hd (events midnight_db)))
         then Some (binary64 (total_seconds ((2024, 6, 1), (23, 59, 59, 999999))
                      ((2024, 6, 1), (23, 0, 0, 0)) / 3600))
         else if D = (2024, 6, 2) \<and> tg = bucket_tag (tag (hd (events midnight_db)))
         then Some (binary64 (of_int (to_micro ((2024, 6, 2), (1, 0, 0, 0))
                      - to_micro ((2024, 6, 2), (0, 0, 0, 0))) / 3600000000))
         else None)"
    by auto
  have g2: "hours_at (get_tag_hours_for_week midnight_db ''2024-05-27'' ''2024-06-03'')
        ''2024-06-01'' ''Work'' = Some (562949953264937 / 562949953421312)"
    using qs [OF in1, of "''Work''"] unfolding q [unfolded fS fE] fS fE f1 wb
    by (simp add: sum_hours_def qe [OF v1] b4 calendar_eval float_eval)
  have g3: "hours_at (get_tag_hours_for_week midnight_db ''2024-05-27'' ''2024-06-03'')
        ''2024-06-02'' ''Work'' = Some 1"
    using qs [OF in2, of "''Work''"] unfolding q [unfolded fS fE] fS fE f2 wb
    by (simp add: sum_hours_def qe [OF v2] b4 calendar_eval float_eval)
  from event_hours_by_day [OF vS vE y pc' c1 c2 c3 s5 s6 l3 lo3 hi3] obtain u where
    u: "get_tag_hours_for_week tenths_db (strftime_date (2024, 5, 27))
          (strftime_date (2024, 6, 3)) = Inr u"
    and us: "\<And>D tg. valid_date D \<and> (2024, 5, 27) \<le> D \<and> D < (2024, 6, 3) \<Longrightarrow>
        hours_at (Inr u) (strftime_date D) tg
          = sum_hours (map (\<lambda>x. event_day_hours x D tg)
              (week_events tenths_db (strftime_date (2024, 5, 27)) (strftime_date (2024, 6, 3))))"
    by auto
  have parts: "map (\<lambda>x. event_day_hours x (2024, 6, 1) ''Work'') (events tenths_db)
      = [Some (3602879701896397 / 36028797018963968),
         Some (3602879701896397 / 36028797018963968),
         Some (3602879701896397 / 36028797018963968)]"
    by (simp add: tenths_db_events hours_eval)
  have g4: "hours_at (get_tag_hours_for_week tenths_db ''2024-05-27'' ''2024-06-03'')
        ''2024-06-01'' ''Work'' = Some (1351079888211149 / 4503599627370496)"
    using us [OF in1, of "''Work''"] unfolding u [unfolded fS fE] fS fE f1 wc parts
    by (simp add: sum_hours_def float_eval)
  from vS vE y fS fE pa pb pc a1 a2 a3 b1 b2 b3 c1 c2 c3 s1 s2 s3 s4 s5 s6 nd g1 g1' g2 g3 g4
  show ?thesis by blast
qed

text \<open>
  C1, amended. For the two \<open>Work\<close> events alone, from 10:00 to 12:00 and from 11:00 to
  13:00 on 2024-06-01, and every range of valid dates from \<open>S\<close> (of a year from 1000
  on) up to \<open>E\<close> that holds 2024-06-01, \<open>get_tag_hours_for_week\<close> reports 4 hours for
  \<open>Work\<close> on 2024-06-01: the overlap is counted twice.
\<close>

theorem overlap_hours_counted_twice:
  assumes "valid_date S" and "valid_date E" and "1000 \<le> fst S"
    and "S \<le> (2024, 6, 1)" and "(2024, 6, 1) < E"
  shows "hours_at (get_tag_hours_for_week overlap_db (strftime_date S) (strftime_date E))
           ''2024-06-01'' ''Work'' = Some 4"
proof -
  define e1 where "e1 = events overlap_db ! 0"
  define e2 where "e2 = events overlap_db ! 1"
  define s1 t1 s2 t2 :: datetime
    where "s1 = ((2024, 6, 1), (10, 0, 0, 0))" and "t1 = ((2024, 6, 1), (12, 0, 0, 0))"
      and "s2 = ((2024, 6, 1), (11, 0, 0, 0))" and "t2 = ((2024, 6, 1), (13, 0, 0, 0))"
  define D0 :: date where "D0 = (2024, 6, 1)"
  have evs: "events overlap_db = [e1, e2]"
    by (simp add: e1_def e2_def overlap_db_events)
  have texts: "start_datetime e1 = strftime s1" "end_datetime e1 = strftime t1"
    "start_datetime e2 = strftime s2" "end_datetime e2 = strftime t2"
    by (simp_all add: e1_def e2_def overlap_db_events s1_def t1_def s2_def t2_def text_eval)
  have tags: "bucket_tag (tag e1) = ''Work''" "bucket_tag (tag e2) = ''Work''"
    by (simp_all add: e1_def e2_def overlap_db_events bucket_tag_def)
  have st: "stored_datetime s1" "stored_datetime t1" "stored_datetime s2" "stored_datetime t2"
    by (simp_all add: s1_def t1_def s2_def t2_def stored_datetime_def days_in_month_def)
  have vd: "valid_datetime s1" "valid_datetime t1" "valid_datetime s2" "valid_datetime t2"
    using st by (simp_all add: stored_datetime_def)
  have fsts: "fst s1 = D0" "fst t1 = D0" "fst s2 = D0" "fst t2 = D0"
    by (simp_all add: s1_def t1_def s2_def t2_def D0_def)
  have vD: "valid_date D0" by (simp add: D0_def days_in_month_def)
  have range: "valid_date D0 \<and> S \<le> D0 \<and> D0 < E"
    using vD assms(4,5) by (simp add: D0_def)
  have sel1: "strftime s1 < strftime_date E \<and> strftime_date S < strftime t1"
    unfolding week_selected [OF st(1,2) assms(1,2)] fsts using range by simp
  have sel2: "strftime s2 < strftime_date E \<and> strftime_date S < strftime t2"
    unfolding week_selected [OF st(3,4) assms(1,2)] fsts using range by simp
  have ord: "strftime s1 \<le> strftime s2"
    unfolding strftime_le [OF st(1) st(3)] by (simp add: s1_def s2_def less_eq_prod_def)
  have we: "week_events overlap_db (strftime_date S) (strftime_date E) = [e1, e2]"
    unfolding week_events_def evs using sel1 sel2 ord
    by (simp add: texts del: strftime.simps)
  have keys0: "\<forall>D. valid_date D \<and> S \<le> D \<and> D < E \<longrightarrow>
      init_days S E Map.empty (strftime_date D) \<noteq> None"
    using init_days_week [OF assms(1,2)] by simp
  from clip_event [OF assms(1,2) vd(1,2) keys0, of "''Work''"] obtain res1 where
    r1: "clip_days s1 t1 ''Work'' S E (init_days S E Map.empty) = Inr res1"
    and rD1: "\<And>D. valid_date D \<and> S \<le> D \<and> D < E \<Longrightarrow>
          res1 (strftime_date D)
            = (if fst s1 \<le> D \<and> D \<le> fst t1
               then map_option (add_hours ''Work'' (clipped_hours s1 t1 D))
                      (init_days S E Map.empty (strftime_date D))
               else init_days S E Map.empty (strftime_date D))"
    and keys1: "\<forall>D. valid_date D \<and> S \<le> D \<and> D < E \<longrightarrow> res1 (strftime_date D) \<noteq> None"
    by blast
  from clip_event [OF assms(1,2) vd(3,4) keys1, of "''Work''"] obtain res2 where
    r2: "clip_days s2 t2 ''Work'' S E res1 = Inr res2"
    and rD2: "\<And>D. valid_date D \<and> S \<le> D \<and> D < E \<Longrightarrow>
          res2 (strftime_date D)
            = (if fst s2 \<le> D \<and> D \<le> fst t2
               then map_option (add_hours ''Work'' (clipped_hours s2 t2 D))
                      (res1 (strftime_date D))
               else res1 (strftime_date D))"
    by blast
  have run: "get_tag_hours_for_week overlap_db (strftime_date S) (strftime_date E) = Inr res2"
    unfolding hours_for_week_unfold [OF assms(1,2)] we
      process_events_stored [OF texts(1,2) st(1,2)] tags r1 sum.case
      process_events_stored [OF texts(3,4) st(3,4)] r2
    by simp
  have h1: "clipped_hours s1 t1 D0 = 2"
    unfolding clip_inside [OF vd(1,2) fsts(1,2)]
    by (simp add: s1_def t1_def calendar_eval binary64_numeral)
  have h2: "clipped_hours s2 t2 D0 = 2"
    unfolding clip_inside [OF vd(3,4) fsts(3,4)]
    by (simp add: s2_def t2_def calendar_eval binary64_numeral)
  have i0: "init_days S E Map.empty (strftime_date D0) = Some Map.empty"
    using init_days_week [OF assms(1,2) vD] range by simp
  have v1: "res1 (strftime_date D0) = Some [''Work'' \<mapsto> 2]"
    unfolding rD1 [OF range] fsts i0 h1 by (simp add: add_hours_empty binary64_numeral)
  have v2: "res2 (strftime_date D0) = Some [''Work'' \<mapsto> 4]"
    unfolding rD2 [OF range] fsts v1 h2 by (simp add: add_hours_def binary64_numeral)
  have key: "strftime_date D0 = ''2024-06-01''"
    by (simp add: D0_def text_eval)
  show ?thesis
    unfolding run using v2 by (simp add: hours_at_def key)
qed

theorem overlap_hours_counted_twice_witness:
  "valid_date (2024, 5, 27) \<and> valid_date (2024, 6, 3) \<and> 1000 \<le> fst ((2024, 5, 27) :: date)
   \<and> (2024, 5, 27) \<le> ((2024, 6, 1) :: date) \<and> (2024, 6, 1) < ((2024, 6, 3) :: date)
   \<and> strftime_date (2024, 5, 27) = ''2024-05-27'' \<and> strftime_date (2024, 6, 3) = ''2024-06-03''
   \<and> hours_at (get_tag_hours_for_week overlap_db ''2024-05-27'' ''2024-06-03'')
        ''2024-06-01'' ''Work'' = Some 4"
proof -
  have vS: "valid_date (2024, 5, 27)" and vE: "valid_date (2024, 6, 3)"
    by (simp_all add: days_in_month_def)
  have y: "1000 \<le> fst ((2024, 5, 27) :: date)" by simp
  have lo: "(2024, 5, 27) \<le> ((2024, 6, 1) :: date)" and hi: "(2024, 6, 1) < ((2024, 6, 3) :: date)"
    by (simp_all add: less_prod_def less_eq_prod_def)
  have fS: "strftime_date (2024, 5, 27) = ''2024-05-27''"
    and fE: "strftime_date (2024, 6, 3) = ''2024-06-03''"
    by (simp_all add: text_eval)
  from overlap_hours_counted_twice [OF vS vE y lo hi]
  have "hours_at (get_tag_hours_for_week overlap_db ''2024-05-27'' ''2024-06-03'')
        ''2024-06-01'' ''Work'' = Some 4"
    unfolding fS fE .
  with vS vE y lo hi fS fE show ?thesis by blast
qed

section \<open>Untagged events: properties\<close>

lemma insort_key_map:
  "(\<And>y. f (g y) = f y) \<Longrightarrow> insort_key f (g x) (map g xs) = map g (insort_key f x xs)"
  by (induction xs) simp_all

lemma sort_key_map:
  "(\<And>y. f (g y) = f y) \<Longrightarrow> sort_key f (map g xs) = map g (sort_key f xs)"
  by (induction xs) (simp_all add: insort_key_map)

lemma week_events_null_tag:
  "week_events (d\<lparr>events := map null_tag (events d)\<rparr>) sd ed = map null_tag (week_events d sd ed)"
proof -
  have f: "filter (\<lambda>e. start_datetime e < ed \<and> sd < end_datetime e) (map null_tag (events d))
      = map null_tag (filter (\<lambda>e. start_datetime e < ed \<and> sd < end_datetime e) (events d))"
    by (simp add: filter_map o_def null_tag_def)
  show ?thesis
    unfolding week_events_def
    by (simp add: f sort_key_map null_tag_def)
qed

lemma bucket_tag_null_tag: "bucket_tag (tag (null_tag e)) = bucket_tag (tag e)"
  by (simp add: null_tag_def bucket_tag_def)

lemma process_events_null_tag:
  "process_events (map null_tag evs) sd ed res = process_events evs sd ed res"
proof (induction evs arbitrary: res)
  case Nil
  show ?case by simp
next
  case (Cons e evs)
  have s: "start_datetime (null_tag e) = start_datetime e"
    and t: "end_datetime (null_tag e) = end_datetime e"
    by (simp_all add: null_tag_def)
  show ?case
    by (simp add: s t bucket_tag_null_tag Cons.IH split: sum.splits)
qed

lemma hours_null_tag:
  "get_tag_hours_for_week (d\<lparr>events := map null_tag (events d)\<rparr>) sd ed
     = get_tag_hours_for_week d sd ed"
  by (simp add: get_tag_hours_for_week_def week_events_null_tag process_events_null_tag Let_def
      cong: sum.case_cong)

lemma hours_events_only:
  "events d1 = events d2 \<Longrightarrow> get_tag_hours_for_week d1 sd ed = get_tag_hours_for_week d2 sd ed"
  by (simp add: get_tag_hours_for_week_def week_events_def)

lemma untagged_event_hours:
  assumes "tag x = None \<or> tag x = Some []"
    and "start_datetime x = strftime a" "end_datetime x = strftime b"
    and "stored_datetime a" "stored_datetime b"
  shows "event_day_hours x D tg =
     (if tg = ''Untagged'' \<and> fst a \<le> D \<and> D \<le> fst b then Some (clipped_hours a b D) else None)"
proof -
  have va: "valid_datetime a" and vb: "valid_datetime b"
    using assms(4,5) by (simp_all add: stored_datetime_def)
  from assms(1) have bt: "bucket_tag (tag x) = ''Untagged''"
    by (auto simp: bucket_tag_def)
  have ov: "day_overlap a b D \<longleftrightarrow> fst a \<le> D \<and> D \<le> fst b"
    by (rule day_overlap_iff [OF va vb])
  show ?thesis
    unfolding event_day_hours_def assms(2,3) strptime_strftime_stored [OF assms(4)]
      strptime_strftime_stored [OF assms(5)] bt
    by (auto simp: ov)
qed

lemma untagged_db_events:
  "events untagged_db =
     [\<lparr>event_id = 1, start_datetime = ''2024-06-01 10:00:00'',
       end_datetime = ''2024-06-01 12:00:00'', title = ''Walk'', description = Some [],
       tag = Some [], created_at = Some ''2024-05-20 08:00:00''\<rparr>]"
  by (simp add: untagged_db_def db_eval)

lemma null_tagged_db_events:
  "events null_tagged_db =
     [\<lparr>event_id = 1, start_datetime = ''2024-06-01 10:00:00'',
       end_datetime = ''2024-06-01 12:00:00'', title = ''Walk'', description = Some [],
       tag = None, created_at = Some ''2024-05-20 08:00:00''\<rparr>]"
  by (simp add: null_tagged_db_def db_eval)

lemma retagged_db_events:
  "events retagged_db =
     [\<lparr>event_id = 1, start_datetime = ''2024-06-01 10:00:00'',
       end_datetime = ''2024-06-01 12:00:00'', title = ''Standup'', description = Some [],
       tag = Some [], created_at = Some ''2024-05-20 08:00:00''\<rparr>]"
  by (simp add: retagged_db_def update_event_def one_day_db_events)

lemma two_hours: "clipped_hours ((2024, 6, 1), (10, 0, 0, 0)) ((2024, 6, 1), (12, 0, 0, 0)) (2024, 6, 1) = 2"
  by (simp add: clipped_hours_def less_eq_prod_def min_def max_def calendar_eval float_eval)

text \<open>
  C10. With the tag argument left out, \<open>add_event\<close> appends a row with the empty
  string, not \<open>NULL\<close>, as the tag; \<open>update_event\<close> succeeds and writes the empty string
  as the tag of every row with the id, leaving the other rows as they are; and
  \<open>bulk_add_events\<close> appends rows with the empty string as the tag.
  \<open>get_tag_hours_for_week\<close> puts an event under \<open>Untagged\<close> when its tag is \<open>NULL\<close> and
  when it is the empty string. Take any table and a range of valid dates from \<open>S\<close> (of a
  year from 1000 on) up to \<open>E\<close> such that the datetimes of every selected event parse,
  and an event \<open>x\<close> of the table with such a tag, its datetimes texts in the format of
  the store with start before end, whose days lie in the range. Then the function
  returns a result whose hours for a tag on a day are what the selected events add, \<open>x\<close>
  is selected, what \<open>x\<close> adds on each of its days it adds to \<open>Untagged\<close> and to no other
  tag, and \<open>Untagged\<close> has hours on each of its days. So two states whose events differ
  only in \<open>NULL\<close> against the empty string have the same aggregation.
\<close>

theorem omitted_tag_untagged_hours:
  "events (snd (add_event d now (PyStr s) (PyStr e) (PyStr t) description_arg Omitted))
     = events d @
       [\<lparr>event_id = next_rowid (map event_id (events d)) (events_seq d),
         start_datetime = s, end_datetime = e, title = t,
         description = sql_text (arg_or description_arg (PyStr [])), tag = Some [],
         created_at = Some now\<rparr>]
   \<and> fst (update_event d eid (PyStr s) (PyStr e) (PyStr t) description_arg Omitted) = Inr ()
   \<and> events (snd (update_event d eid (PyStr s) (PyStr e) (PyStr t) description_arg Omitted))
     = map (\<lambda>r. if event_id r = eid
                 then r\<lparr>start_datetime := s, end_datetime := e, title := t,
                        description := sql_text (arg_or description_arg (PyStr [])),
                        tag := Some []\<rparr>
                 else r) (events d)
   \<and> ((\<forall>ev \<in> set evs. ev ''title'' \<noteq> Some PyNone) \<longrightarrow>
        map tag (events (snd (bulk_add_events d now evs Omitted)))
          = map tag (events d) @ replicate (length (filter has_both_datetimes evs)) (Some []))
   \<and> (valid_date S \<and> valid_date E \<and> 1000 \<le> fst S
        \<and> (\<forall>y \<in> set (week_events dw (strftime_date S) (strftime_date E)).
              \<not> isl (strptime (start_datetime y)) \<and> \<not> isl (strptime (end_datetime y)))
        \<and> x \<in> set (events dw) \<and> (tag x = None \<or> tag x = Some [])
        \<and> start_datetime x = strftime a \<and> end_datetime x = strftime b
        \<and> stored_datetime a \<and> stored_datetime b \<and> a < b \<and> S \<le> fst a \<and> fst b < E
      \<longrightarrow> (\<exists>r. get_tag_hours_for_week dw (strftime_date S) (strftime_date E) = Inr r
            \<and> (\<forall>D tg. valid_date D \<and> S \<le> D \<and> D < E \<longrightarrow>
                  hours_at (Inr r) (strftime_date D) tg
                    = sum_hours (map (\<lambda>y. event_day_hours y D tg)
                        (week_events dw (strftime_date S) (strftime_date E))))
            \<and> x \<in> set (week_events dw (strftime_date S) (strftime_date E))
            \<and> (\<forall>D tg. event_day_hours x D tg =
                  (if tg = ''Untagged'' \<and> fst a \<le> D \<and> D \<le> fst b
                   then Some (clipped_hours a b D) else None))
            \<and> (\<forall>D. valid_date D \<and> fst a \<le> D \<and> D \<le> fst b \<longrightarrow>
                  hours_at (Inr r) (strftime_date D) ''Untagged'' \<noteq> None)))
   \<and> (map null_tag (events d1) = map null_tag (events d2) \<longrightarrow>
        get_tag_hours_for_week d1 sd ed = get_tag_hours_for_week d2 sd ed)"
proof (intro conjI impI)
  show "events (snd (add_event d now (PyStr s) (PyStr e) (PyStr t) description_arg Omitted))
     = events d @
       [\<lparr>event_id = next_rowid (map event_id (events d)) (events_seq d),
         start_datetime = s, end_datetime = e, title = t,
         description = sql_text (arg_or description_arg (PyStr [])), tag = Some [],
         created_at = Some now\<rparr>]"
    by (simp add: add_event_def insert_event_def Let_def)
next
  show "fst (update_event d eid (PyStr s) (PyStr e) (PyStr t) description_arg Omitted) = Inr ()"
    by (simp add: update_event_def)
next
  show "events (snd (update_event d eid (PyStr s) (PyStr e) (PyStr t) description_arg Omitted))
     = map (\<lambda>r. if event_id r = eid
                 then r\<lparr>start_datetime := s, end_datetime := e, title := t,
                        description := sql_text (arg_or description_arg (PyStr [])),
                        tag := Some []\<rparr>
                 else r) (events d)"
  proof (cases "list_ex (\<lambda>e. event_id e = eid) (events d)")
    case True
    then show ?thesis by (simp add: update_event_def)
  next
    case False
    then have "\<forall>r \<in> set (events d). event_id r \<noteq> eid" by (simp add: list_ex_iff)
    then have "map (\<lambda>r. if event_id r = eid
                 then r\<lparr>start_datetime := s, end_datetime := e, title := t,
                        description := sql_text (arg_or description_arg (PyStr [])),
                        tag := Some []\<rparr>
                 else r) (events d) = events d"
      by (intro map_idI) simp
    with False show ?thesis by (simp add: update_event_def)
  qed
next
  assume titles: "\<forall>ev \<in> set evs. ev ''title'' \<noteq> Some PyNone"
  from bulk_loop_rows [OF titles, of d now "PyStr []" 0]
  obtain rows seq where
    loop: "bulk_loop d now (PyStr []) evs 0
       = Inr (0 + int (length (filter has_both_datetimes evs)),
              d\<lparr>events := events d @ rows, events_seq := seq\<rparr>)"
    and cols: "map event_columns rows
       = map (record_columns (PyStr [])) (filter has_both_datetimes evs)"
    and nil: "rows = [] \<longrightarrow> seq = events_seq d"
    by blast
  from cols have "map (\<lambda>c. snd (snd (snd (snd c)))) (map event_columns rows)
      = map (\<lambda>c. snd (snd (snd (snd c))))
          (map (record_columns (PyStr [])) (filter has_both_datetimes evs))"
    by simp
  then have tags: "map tag rows = replicate (length (filter has_both_datetimes evs)) (Some [])"
    by (simp add: o_def event_columns_def record_columns_def map_replicate_const)
  show "map tag (events (snd (bulk_add_events d now evs Omitted)))
          = map tag (events d) @ replicate (length (filter has_both_datetimes evs)) (Some [])"
  proof (cases "evs = []")
    case True
    then show ?thesis by (simp add: bulk_add_events_def)
  next
    case False
    with loop tags show ?thesis by (simp add: bulk_add_events_def)
  qed
next
  assume h: "valid_date S \<and> valid_date E \<and> 1000 \<le> fst S
        \<and> (\<forall>y \<in> set (week_events dw (strftime_date S) (strftime_date E)).
              \<not> isl (strptime (start_datetime y)) \<and> \<not> isl (strptime (end_datetime y)))
        \<and> x \<in> set (events dw) \<and> (tag x = None \<or> tag x = Some [])
        \<and> start_datetime x = strftime a \<and> end_datetime x = strftime b
        \<and> stored_datetime a \<and> stored_datetime b \<and> a < b \<and> S \<le> fst a \<and> fst b < E"
  then have vS: "valid_date S" and vE: "valid_date E"
    and parse: "\<forall>y \<in> set (week_events dw (strftime_date S) (strftime_date E)).
              \<not> isl (strptime (start_datetime y)) \<and> \<not> isl (strptime (end_datetime y))"
    and mem: "x \<in> set (events dw)" and tg: "tag x = None \<or> tag x = Some []"
    and st: "start_datetime x = strftime a" and en: "end_datetime x = strftime b"
    and sa: "stored_datetime a" and sb: "stored_datetime b" and lt: "a < b"
    and lo: "S \<le> fst a" and hi: "fst b < E"
    by blast+
  from week_hours_sum [OF vS vE parse] obtain r where
    run: "get_tag_hours_for_week dw (strftime_date S) (strftime_date E) = Inr r"
    and sums: "\<forall>D tg. valid_date D \<and> S \<le> D \<and> D < E \<longrightarrow>
          hours_at (Inr r) (strftime_date D) tg
            = sum_hours (map (\<lambda>y. event_day_hours y D tg)
                (week_events dw (strftime_date S) (strftime_date E)))"
    by blast
  have sel: "x \<in> set (week_events dw (strftime_date S) (strftime_date E))"
    by (rule event_selected [OF vS vE mem st en sa sb lt lo hi])
  have adds: "\<forall>D tg. event_day_hours x D tg =
                  (if tg = ''Untagged'' \<and> fst a \<le> D \<and> D \<le> fst b
                   then Some (clipped_hours a b D) else None)"
    using untagged_event_hours [OF tg st en sa sb] by blast
  have present: "hours_at (Inr r) (strftime_date D) ''Untagged'' \<noteq> None"
    if D: "valid_date D \<and> fst a \<le> D \<and> D \<le> fst b" for D
  proof -
    from D lo hi have rng: "valid_date D \<and> S \<le> D \<and> D < E"
      using order_trans [of S "fst a" D] le_less_trans [of D "fst b" E] by blast
    from D have "event_day_hours x D ''Untagged'' = Some (clipped_hours a b D)"
      unfolding untagged_event_hours [OF tg st en sa sb] by simp
    with sel have "Some (clipped_hours a b D)
        \<in> set (map (\<lambda>y. event_day_hours y D ''Untagged'')
                 (week_events dw (strftime_date S) (strftime_date E)))"
      by force
    then have ne: "sum_hours (map (\<lambda>y. event_day_hours y D ''Untagged'')
                 (week_events dw (strftime_date S) (strftime_date E))) \<noteq> None"
      by (rule sum_hours_present)
    from sums rng have eq: "hours_at (Inr r) (strftime_date D) ''Untagged''
        = sum_hours (map (\<lambda>y. event_day_hours y D ''Untagged'')
                 (week_events dw (strftime_date S) (strftime_date E)))"
      by blast
    show ?thesis unfolding eq by (rule ne)
  qed
  from run sums sel adds present
  show "\<exists>r. get_tag_hours_for_week dw (strftime_date S) (strftime_date E) = Inr r
            \<and> (\<forall>D tg. valid_date D \<and> S \<le> D \<and> D < E \<longrightarrow>
                  hours_at (Inr r) (strftime_date D) tg
                    = sum_hours (map (\<lambda>y. event_day_hours y D tg)
                        (week_events dw (strftime_date S) (strftime_date E))))
            \<and> x \<in> set (week_events dw (strftime_date S) (strftime_date E))
            \<and> (\<forall>D tg. event_day_hours x D tg =
                  (if tg = ''Untagged'' \<and> fst a \<le> D \<and> D \<le> fst b
                   then Some (clipped_hours a b D) else None))
            \<and> (\<forall>D. valid_date D \<and> fst a \<le> D \<and> D \<le> fst b \<longrightarrow>
                  hours_at (Inr r) (strftime_date D) ''Untagged'' \<noteq> None)"
    by blast
next
  assume eq: "map null_tag (events d1) = map null_tag (events d2)"
  have "get_tag_hours_for_week d1 sd ed
      = get_tag_hours_for_week (d1\<lparr>events := map null_tag (events d1)\<rparr>) sd ed"
    by (simp add: hours_null_tag)
  also have "\<dots> = get_tag_hours_for_week (d2\<lparr>events := map null_tag (events d2)\<rparr>) sd ed"
    by (rule hours_events_only) (simp add: eq)
  also have "\<dots> = get_tag_hours_for_week d2 sd ed"
    by (simp add: hours_null_tag)
  finally show "get_tag_hours_for_week d1 sd ed = get_tag_hours_for_week d2 sd ed" .
qed

theorem omitted_tag_untagged_hours_witness:
  "events untagged_db =
     [\<lparr>event_id = 1, start_datetime = ''2024-06-01 10:00:00'',
       end_datetime = ''2024-06-01 12:00:00'', title = ''Walk'', description = Some [],
       tag = Some [], created_at = Some ''2024-05-20 08:00:00''\<rparr>]
   \<and> map tag (events one_day_db) = [Some ''Work'']
   \<and> fst (update_event one_day_db 1 (PyStr ''2024-06-01 10:00:00'')
        (PyStr ''2024-06-01 12:00:00'') (PyStr ''Standup'') Omitted Omitted) = Inr ()
   \<and> events retagged_db =
     [\<lparr>event_id = 1, start_datetime = ''2024-06-01 10:00:00'',
       end_datetime = ''2024-06-01 12:00:00'', title = ''Standup'', description = Some [],
       tag = Some [], created_at = Some ''2024-05-20 08:00:00''\<rparr>]
   \<and> list_all (\<lambda>ev. ev ''title'' \<noteq> Some PyNone) import_records
   \<and> map tag (events (snd (bulk_add_events empty_db ''2024-06-01 08:00:00'' import_records Omitted)))
       = [Some [], Some [], Some []]
   \<and> valid_date (2024, 5, 27) \<and> valid_date (2024, 6, 3) \<and> 1000 \<le> fst ((2024, 5, 27) :: date)
   \<and> strftime_date (2024, 5, 27) = ''2024-05-27'' \<and> strftime_date (2024, 6, 3) = ''2024-06-03''
   \<and> list_all (\<lambda>x. \<not> isl (strptime (start_datetime x)) \<and> \<not> isl (strptime (end_datetime x)))
        (week_events untagged_db ''2024-05-27'' ''2024-06-03'')
   \<and> list_all (\<lambda>x. \<not> isl (strptime (start_datetime x)) \<and> \<not> isl (strptime (end_datetime x)))
        (week_events null_tagged_db ''2024-05-27'' ''2024-06-03'')
   \<and> list_all (\<lambda>x. \<not> isl (strptime (start_datetime x)) \<and> \<not> isl (strptime (end_datetime x)))
        (week_events retagged_db ''2024-05-27'' ''2024-06-03'')
   \<and> tag (hd (events untagged_db)) = Some [] \<and> tag (hd (events null_tagged_db)) = None
   \<and> tag (hd (events retagged_db)) = Some []
   \<and> stored_datetime ((2024, 6, 1), (10, 0, 0, 0)) \<and> stored_datetime ((2024, 6, 1), (12, 0, 0, 0))
   \<and> hours_at (get_tag_hours_for_week untagged_db ''2024-05-27'' ''2024-06-03'')
        ''2024-06-01'' ''Untagged'' = Some 2
   \<and> hours_at (get_tag_hours_for_week untagged_db ''2024-05-27'' ''2024-06-03'')
        ''2024-06-01'' [] = None
   \<and> hours_at (get_tag_hours_for_week null_tagged_db ''2024-05-27'' ''2024-06-03'')
        ''2024-06-01'' ''Untagged'' = Some 2
   \<and> hours_at (get_tag_hours_for_week retagged_db ''2024-05-27'' ''2024-06-03'')
        ''2024-06-01'' ''Untagged'' = Some 2
   \<and> hours_at (get_tag_hours_for_week retagged_db ''2024-05-27'' ''2024-06-03'')
        ''2024-06-01'' ''Work'' = None
   \<and> map null_tag (events untagged_db) = map null_tag (events null_tagged_db)
   \<and> get_tag_hours_for_week untagged_db ''2024-05-27'' ''2024-06-03''
       = get_tag_hours_for_week null_tagged_db ''2024-05-27'' ''2024-06-03''"
proof -
  define a b :: datetime where "a = ((2024, 6, 1), (10, 0, 0, 0))" and "b = ((2024, 6, 1), (12, 0, 0, 0))"
  define S E D1 :: date where "S = (2024, 5, 27)" and "E = (2024, 6, 3)" and "D1 = (2024, 6, 1)"
  have vS: "valid_date S" and vE: "valid_date E" and v1: "valid_date D1"
    by (simp_all add: S_def E_def D1_def days_in_month_def)
  have y: "1000 \<le> fst S" by (simp add: S_def)
  have fS: "strftime_date S = ''2024-05-27''" and fE: "strftime_date E = ''2024-06-03''"
    and f1: "strftime_date D1 = ''2024-06-01''"
    by (simp_all add: S_def E_def D1_def text_eval)
  have sa: "stored_datetime a" and sb: "stored_datetime b"
    by (simp_all add: a_def b_def stored_datetime_def days_in_month_def)
  have lt: "a < b" by (simp add: a_def b_def less_prod_def)
  have lo: "S \<le> fst a" and hi: "fst b < E"
    by (simp_all add: a_def b_def S_def E_def less_prod_def less_eq_prod_def)
  have in1: "valid_date D1 \<and> S \<le> D1 \<and> D1 < E"
    using v1 by (simp add: S_def E_def D1_def less_prod_def less_eq_prod_def)
  have on1: "fst a \<le> D1 \<and> D1 \<le> fst b" by (simp add: a_def b_def D1_def)
  have ta: "strftime a = ''2024-06-01 10:00:00''" and tb: "strftime b = ''2024-06-01 12:00:00''"
    by (simp_all add: a_def b_def text_eval)
  have two: "clipped_hours a b D1 = 2"
    unfolding a_def b_def D1_def by (rule two_hours)
  have h: "\<forall>ev \<in> set import_records. ev ''title'' \<noteq> Some PyNone"
    by (simp add: import_records_def)
  from h have h': "list_all (\<lambda>ev. ev ''title'' \<noteq> Some PyNone) import_records"
    by (simp add: list_all_iff)
  have hyp: "valid_date S \<and> valid_date E \<and> 1000 \<le> fst S
        \<and> (\<forall>y \<in> set (week_events dw (strftime_date S) (strftime_date E)).
              \<not> isl (strptime (start_datetime y)) \<and> \<not> isl (strptime (end_datetime y)))
        \<and> hd (events dw) \<in> set (events dw)
        \<and> (tag (hd (events dw)) = None \<or> tag (hd (events dw)) = Some [])
        \<and> start_datetime (hd (events dw)) = strftime a \<and> end_datetime (hd (events dw)) = strftime b
        \<and> stored_datetime a \<and> stored_datetime b \<and> a < b \<and> S \<le> fst a \<and> fst b < E"
    if "week_events dw ''2024-05-27'' ''2024-06-03'' = events dw"
      and "events dw = [ev]" and "tag ev = None \<or> tag ev = Some []"
      and "start_datetime ev = ''2024-06-01 10:00:00''" and "end_datetime ev = ''2024-06-01 12:00:00''"
    for dw ev
    using that vS vE y sa sb lt lo hi
    by (simp add: fS fE ta tb parse_eval del: strftime.simps)
  have res: "hours_at (get_tag_hours_for_week dw ''2024-05-27'' ''2024-06-03'') ''2024-06-01'' tg
      = (if tg = ''Untagged'' then Some 2 else None)"
    if w: "week_events dw ''2024-05-27'' ''2024-06-03'' = events dw"
      and e: "events dw = [ev]" and t0: "tag ev = None \<or> tag ev = Some []"
      and t1: "start_datetime ev = ''2024-06-01 10:00:00''"
      and t2: "end_datetime ev = ''2024-06-01 12:00:00''"
    for dw ev tg
  proof -
    note th = omitted_tag_untagged_hours [of _ _ _ _ _ _ _ _ S E dw "hd (events dw)" a b,
        THEN conjunct2, THEN conjunct2, THEN conjunct2, THEN conjunct2, THEN conjunct1,
        THEN mp, OF hyp [OF w e t0 t1 t2]]
    from th obtain r where
      r: "get_tag_hours_for_week dw (strftime_date S) (strftime_date E) = Inr r"
      and rs: "\<And>D tg. valid_date D \<and> S \<le> D \<and> D < E \<Longrightarrow>
          hours_at (Inr r) (strftime_date D) tg
            = sum_hours (map (\<lambda>y. event_day_hours y D tg)
                (week_events dw (strftime_date S) (strftime_date E)))"
      and re: "\<And>D tg. event_day_hours (hd (events dw)) D tg =
                  (if tg = ''Untagged'' \<and> fst a \<le> D \<and> D \<le> fst b
                   then Some (clipped_hours a b D) else None)"
      by blast
    have "hours_at (Inr r) (strftime_date D1) tg
        = sum_hours [event_day_hours (hd (events dw)) D1 tg]"
      unfolding rs [OF in1] fS fE w by (simp add: e)
    then show ?thesis
      unfolding r [unfolded fS fE, symmetric] f1 re
      using on1 by (simp add: sum_hours_def two)
  qed
  have wa: "week_events untagged_db ''2024-05-27'' ''2024-06-03'' = events untagged_db"
    and wb: "week_events null_tagged_db ''2024-05-27'' ''2024-06-03'' = events null_tagged_db"
    and wc: "week_events retagged_db ''2024-05-27'' ''2024-06-03'' = events retagged_db"
    by (simp_all add: week_events_def untagged_db_events null_tagged_db_events retagged_db_events)
  have pa: "list_all (\<lambda>x. \<not> isl (strptime (start_datetime x)) \<and> \<not> isl (strptime (end_datetime x)))
        (week_events untagged_db ''2024-05-27'' ''2024-06-03'')"
    unfolding wa by (simp add: untagged_db_events parse_eval)
  have pb: "list_all (\<lambda>x. \<not> isl (strptime (start_datetime x)) \<and> \<not> isl (strptime (end_datetime x)))
        (week_events null_tagged_db ''2024-05-27'' ''2024-06-03'')"
    unfolding wb by (simp add: null_tagged_db_events parse_eval)
  have pc: "list_all (\<lambda>x. \<not> isl (strptime (start_datetime x)) \<and> \<not> isl (strptime (end_datetime x)))
        (week_events retagged_db ''2024-05-27'' ''2024-06-03'')"
    unfolding wc by (simp add: retagged_db_events parse_eval)
  have ga: "hours_at (get_tag_hours_for_week untagged_db ''2024-05-27'' ''2024-06-03'')
        ''2024-06-01'' ''Untagged'' = Some 2"
    and ga': "hours_at (get_tag_hours_for_week untagged_db ''2024-05-27'' ''2024-06-03'')
        ''2024-06-01'' [] = None"
    by (simp_all add: res [OF wa untagged_db_events])
  have gb: "hours_at (get_tag_hours_for_week null_tagged_db ''2024-05-27'' ''2024-06-03'')
        ''2024-06-01'' ''Untagged'' = Some 2"
    by (simp add: res [OF wb null_tagged_db_events])
  have gc: "hours_at (get_tag_hours_for_week retagged_db ''2024-05-27'' ''2024-06-03'')
        ''2024-06-01'' ''Untagged'' = Some 2"
    and gc': "hours_at (get_tag_hours_for_week retagged_db ''2024-05-27'' ''2024-06-03'')
        ''2024-06-01'' ''Work'' = None"
    by (simp_all add: res [OF wc retagged_db_events])
  have tags: "tag (hd (events untagged_db)) = Some []" "tag (hd (events null_tagged_db)) = None"
    "tag (hd (events retagged_db)) = Some []" "map tag (events one_day_db) = [Some ''Work'']"
    by (simp_all add: untagged_db_events null_tagged_db_events retagged_db_events one_day_db_events)
  have n: "map null_tag (events untagged_db) = map null_tag (events null_tagged_db)"
    by (simp add: untagged_db_events null_tagged_db_events null_tag_def)
  note th0 = omitted_tag_untagged_hours [of empty_db "''2024-06-01 08:00:00''" _ _ _ _ _ import_records
      _ _ _ _ _ _ untagged_db null_tagged_db "''2024-05-27''" "''2024-06-03''"]
  have c: "map tag (events (snd
        (bulk_add_events empty_db ''2024-06-01 08:00:00'' import_records Omitted)))
       = map tag (events empty_db) @ replicate (length (filter has_both_datetimes import_records)) (Some [])"
    by (rule th0 [THEN conjunct2, THEN conjunct2, THEN conjunct2, THEN conjunct1, THEN mp, OF h])
  have c': "map tag (events (snd
        (bulk_add_events empty_db ''2024-06-01 08:00:00'' import_records Omitted)))
       = [Some [], Some [], Some []]"
    unfolding c by (simp add: import_valid empty_db_def)
  have e: "get_tag_hours_for_week untagged_db ''2024-05-27'' ''2024-06-03''
       = get_tag_hours_for_week null_tagged_db ''2024-05-27'' ''2024-06-03''"
    by (rule th0 [THEN conjunct2, THEN conjunct2, THEN conjunct2, THEN conjunct2,
          THEN conjunct2, THEN mp, OF n])
  have u: "fst (update_event one_day_db 1 (PyStr ''2024-06-01 10:00:00'')
        (PyStr ''2024-06-01 12:00:00'') (PyStr ''Standup'') Omitted Omitted) = Inr ()"
    by (rule omitted_tag_untagged_hours [THEN conjunct2, THEN conjunct1])
  have added: "events untagged_db =
     [\<lparr>event_id = 1, start_datetime = ''2024-06-01 10:00:00'',
       end_datetime = ''2024-06-01 12:00:00'', title = ''Walk'', description = Some [],
       tag = Some [], created_at = Some ''2024-05-20 08:00:00''\<rparr>]"
    unfolding untagged_db_def omitted_tag_untagged_hours [THEN conjunct1]
    by (simp add: empty_db_def next_rowid_def)
  have updated: "events retagged_db =
     [\<lparr>event_id = 1, start_datetime = ''2024-06-01 10:00:00'',
       end_datetime = ''2024-06-01 12:00:00'', title = ''Standup'', description = Some [],
       tag = Some [], created_at = Some ''2024-05-20 08:00:00''\<rparr>]"
    unfolding retagged_db_def omitted_tag_untagged_hours [THEN conjunct2, THEN conjunct2, THEN conjunct1]
    by (simp add: one_day_db_events)
  from added tags(4) u updated h' c' vS vE y fS fE pa pb pc tags(1-3)
    sa sb ga ga' gb gc gc' n e
  show ?thesis unfolding S_def E_def a_def b_def by blast
qed

end
